theory Spec2Isabelle
  imports Complex_Main "HOL-Library.FuncSet"
begin

section \<open>Numbers, faults and the random source\<close>

text \<open>
  The program (\<^verbatim>\<open>PJEMU64.cpp\<close>) computes with C++ \<^verbatim>\<open>float\<close>.  Here a \<^verbatim>\<open>float\<close> is a
  \<^typ>\<open>real\<close> and every operation is the exact one: rounding, infinities and NaN are
  not part of the model.  One rounding decides a property stated below, that of the
  value \<^verbatim>\<open>tanh\<close> returns; the forward pass is therefore given a second time, with
  that value rounded to binary32.  \<^verbatim>\<open>int\<close> is \<^typ>\<open>int\<close>; the only integer arithmetic of the
  program that matters below is \<^verbatim>\<open>800 - rect.w\<close> and the loop counters, none of which
  can wrap.

  Two things the C++ can do besides returning a value are outcomes of their own:
  an unchecked \<^verbatim>\<open>operator[]\<close> beyond the end of a vector (undefined behaviour, no
  check is compiled in) and \<^verbatim>\<open>std::vector::resize\<close> with a negative \<^verbatim>\<open>int\<close>, which
  converts to a huge \<^verbatim>\<open>size_t\<close> and throws \<^verbatim>\<open>std::length_error\<close>.
\<close>

datatype fault = OutOfBounds | LengthError

text \<open>
  Every \<^verbatim>\<open>Neuron\<close> constructor builds its own \<^verbatim>\<open>std::random_device\<close>, seeds its own
  \<^verbatim>\<open>std::mt19937\<close> and draws through \<^verbatim>\<open>uniform_real_distribution<>(-1.0, 1.0)\<close>.

  The library's part is this.  A call \<^verbatim>\<open>dis(gen)\<close> lets \<^verbatim>\<open>generate_canonical\<close>
  assemble a number of \<open>[0, 1)\<close> from the outputs of the engine, and
  \<^verbatim>\<open>uniform_real_distribution<>(a, b)\<close> returns \<open>a + (b - a)\<close> times that number.
  The engine is outside the program: the canonical numbers it yields in one
  constructor call are an input of the model, \<open>gen k\<close> for the \<open>k\<close>-th call of
  \<^verbatim>\<open>dis(gen)\<close>.  The bounds \<open>a\<close> and \<open>b\<close> are the program's.
\<close>

type_synonym rng = "nat \<Rightarrow> real"

definition uniform_real_distribution :: "real \<Rightarrow> real \<Rightarrow> real \<Rightarrow> real" where
  "uniform_real_distribution a b canonical = a + (b - a) * canonical"

section \<open>Neuron\<close>

record neuron =
  weights :: "real list"
  bias :: real

text \<open>
  \<^verbatim>\<open>Neuron(int inputs) : bias(0.0f)\<close>: the distribution \<^verbatim>\<open>dis(-1.0, 1.0)\<close>, the
  resize, then \<^verbatim>\<open>w = dis(gen)\<close> for one weight after the other.
\<close>

definition Neuron :: "int \<Rightarrow> rng \<Rightarrow> fault + neuron" where
  "Neuron inputs gen =
     (let dis = uniform_real_distribution (- 1) 1
      in if inputs < 0 then Inl LengthError
         else Inr \<lparr>weights = map (\<lambda>k. dis (gen k)) [0..<nat inputs], bias = 0\<rparr>)"

text \<open>
  \<^verbatim>\<open>for (size_t i = 0; i < inputs.size(); i++) sum += inputs[i] * weights[i];\<close>
  The bound is the length of \<open>inputs\<close>; \<open>weights[i]\<close> is read unchecked.  The
  accumulator \<^verbatim>\<open>sum\<close> is \<open>sm\<close> here.
\<close>

function activate_loop :: "real list \<Rightarrow> real list \<Rightarrow> nat \<Rightarrow> real \<Rightarrow> fault + real" where
  "activate_loop ws inputs i sm =
     (if i < length inputs then
        (if i < length ws then activate_loop ws inputs (Suc i) (sm + inputs ! i * ws ! i)
         else Inl OutOfBounds)
      else Inr sm)"
  by pat_completeness auto
termination
  by (relation "measure (\<lambda>(ws, inputs, i, sm). length inputs - i)") auto

declare activate_loop.simps [simp del]

definition activate :: "neuron \<Rightarrow> real list \<Rightarrow> fault + real" where
  "activate n inputs =
     (case activate_loop (weights n) inputs 0 (bias n) of
        Inl e \<Rightarrow> Inl e
      | Inr sm \<Rightarrow> Inr (tanh sm))"

section \<open>NeuralNetwork\<close>

record network =
  layers :: "neuron list list"

text \<open>
  The inner loop of the constructor, \<^verbatim>\<open>for (int j = 0; j < topology[i]; j++)
  layer.emplace_back(numInputs);\<close>.  \<open>rd j\<close> is the generator of the \<open>j\<close>-th neuron.
\<close>

function layer_loop :: "int \<Rightarrow> int \<Rightarrow> (nat \<Rightarrow> rng) \<Rightarrow> int \<Rightarrow> neuron list \<Rightarrow> fault + neuron list" where
  "layer_loop numInputs n rd j layer =
     (if j < n then
        (case Neuron numInputs (rd (nat j)) of
           Inl e \<Rightarrow> Inl e
         | Inr nr \<Rightarrow> layer_loop numInputs n rd (j + 1) (layer @ [nr]))
      else Inr layer)"
  by pat_completeness auto
termination
  by (relation "measure (\<lambda>(numInputs, n, rd, j, layer). nat (n - j))") auto

declare layer_loop.simps [simp del]

text \<open>
  The outer loop, \<^verbatim>\<open>for (size_t i = 1; i < topology.size(); i++)\<close>.  \<open>rd l j\<close> is the
  generator of neuron \<open>j\<close> of layer \<open>l\<close> (layer \<open>l\<close> is built at \<open>i = l + 1\<close>).
\<close>

function network_loop :: "int list \<Rightarrow> (nat \<Rightarrow> nat \<Rightarrow> rng) \<Rightarrow> nat \<Rightarrow> neuron list list \<Rightarrow> fault + neuron list list" where
  "network_loop topology rd i ls =
     (if i < length topology then
        (case layer_loop (topology ! (i - 1)) (topology ! i) (rd (i - 1)) 0 [] of
           Inl e \<Rightarrow> Inl e
         | Inr layer \<Rightarrow> network_loop topology rd (Suc i) (ls @ [layer]))
      else Inr ls)"
  by pat_completeness auto
termination
  by (relation "measure (\<lambda>(topology, rd, i, ls). length topology - i)") auto

declare network_loop.simps [simp del]

definition NeuralNetwork :: "int list \<Rightarrow> (nat \<Rightarrow> nat \<Rightarrow> rng) \<Rightarrow> fault + network" where
  "NeuralNetwork topology rd =
     (case network_loop topology rd 1 [] of
        Inl e \<Rightarrow> Inl e
      | Inr ls \<Rightarrow> Inr \<lparr>layers = ls\<rparr>)"

text \<open>
  \<^verbatim>\<open>for (const auto& neuron : layer) outputs.push_back(neuron.activate(inputs));\<close>
\<close>

fun layer_outputs :: "neuron list \<Rightarrow> real list \<Rightarrow> real list \<Rightarrow> fault + real list" where
  "layer_outputs [] inputs outputs = Inr outputs"
| "layer_outputs (n # ns) inputs outputs =
     (case activate n inputs of
        Inl e \<Rightarrow> Inl e
      | Inr v \<Rightarrow> layer_outputs ns inputs (outputs @ [v]))"

text \<open>\<^verbatim>\<open>for (const auto& layer : layers) { ...; inputs = outputs; } return inputs;\<close>\<close>

fun feed_layers :: "neuron list list \<Rightarrow> real list \<Rightarrow> fault + real list" where
  "feed_layers [] inputs = Inr inputs"
| "feed_layers (layer # ls) inputs =
     (case layer_outputs layer inputs [] of
        Inl e \<Rightarrow> Inl e
      | Inr outputs \<Rightarrow> feed_layers ls outputs)"

text \<open>
  \<open>feedForward\<close> is a non-\<^verbatim>\<open>const\<close> member function, so it returns the object it was
  called on next to its result.  The body reaches \<open>layers\<close> only through
  \<^verbatim>\<open>const auto&\<close> and works on its by-value copy of \<open>inputs\<close>.
\<close>

definition feedForward :: "network \<Rightarrow> real list \<Rightarrow> (fault + real list) \<times> network" where
  "feedForward net inputs = (feed_layers (layers net) inputs, net)"

section \<open>The forward pass with the value of \<^verbatim>\<open>tanh\<close> rounded\<close>

text \<open>
  \<open>activate\<close> returns \<^verbatim>\<open>float\<close>, so what comes back from \<^verbatim>\<open>return tanh(sum);\<close> is
  a binary32 number: the one nearest to the exact value, a tie going to the even
  significand.  \<open>round_to_even\<close> rounds to the nearest integer with that tie
  rule.  \<open>binary32\<close> divides by the unit in the last place, which is 2 to the
  power \<open>e - 23\<close> where \<open>e\<close> is the exponent of \<open>x\<close> and at least -126,
  rounds, and multiplies back.  It is meant for arguments below the overflow
  threshold, which every value of \<open>tanh\<close> is.
\<close>

definition round_to_even :: "real \<Rightarrow> int" where
  "round_to_even x =
     (let f = \<lfloor>x\<rfloor>; d = x - real_of_int f
      in if d < 1 / 2 then f
         else if 1 / 2 < d then f + 1
         else if even f then f else f + 1)"

definition binary32 :: "real \<Rightarrow> real" where
  "binary32 x =
     (if x = 0 then 0
      else
        (let ulp = 2 powi (max (- 126) \<lfloor>log 2 \<bar>x\<bar>\<rfloor> - 23)
         in real_of_int (round_to_even (x / ulp)) * ulp))"

definition float_tanh :: "real \<Rightarrow> real" where
  "float_tanh x = binary32 (tanh x)"

text \<open>
  \<open>activate\<close>, \<open>layer_outputs\<close>, \<open>feed_layers\<close> and \<open>feedForward\<close> once more,
  the same but for \<open>float_tanh\<close> in the place of \<open>tanh\<close>.
\<close>

definition activate32 :: "neuron \<Rightarrow> real list \<Rightarrow> fault + real" where
  "activate32 n inputs =
     (case activate_loop (weights n) inputs 0 (bias n) of
        Inl e \<Rightarrow> Inl e
      | Inr sm \<Rightarrow> Inr (float_tanh sm))"

fun layer_outputs32 :: "neuron list \<Rightarrow> real list \<Rightarrow> real list \<Rightarrow> fault + real list" where
  "layer_outputs32 [] inputs outputs = Inr outputs"
| "layer_outputs32 (n # ns) inputs outputs =
     (case activate32 n inputs of
        Inl e \<Rightarrow> Inl e
      | Inr v \<Rightarrow> layer_outputs32 ns inputs (outputs @ [v]))"

fun feed_layers32 :: "neuron list list \<Rightarrow> real list \<Rightarrow> fault + real list" where
  "feed_layers32 [] inputs = Inr inputs"
| "feed_layers32 (layer # ls) inputs =
     (case layer_outputs32 layer inputs [] of
        Inl e \<Rightarrow> Inl e
      | Inr outputs \<Rightarrow> feed_layers32 ls outputs)"

definition feedForward32 :: "network \<Rightarrow> real list \<Rightarrow> (fault + real list) \<times> network" where
  "feedForward32 net inputs = (feed_layers32 (layers net) inputs, net)"

section \<open>Unit\<close>

record SDL_Point =
  point_x :: int
  point_y :: int

record SDL_Rect =
  rect_x :: int
  rect_y :: int
  rect_w :: int
  rect_h :: int

text \<open>Handles of the presentation backend; a null pointer is \<open>None\<close>.\<close>

type_synonym SDL_Texture = nat
type_synonym SDL_Window = nat
type_synonym SDL_Renderer = nat

text \<open>The fields \<^verbatim>\<open>x\<close> and \<^verbatim>\<open>y\<close> of the class are \<open>unit_x\<close> and \<open>unit_y\<close>.\<close>

record game_unit =
  rect :: SDL_Rect
  texture :: "SDL_Texture option"
  brain :: network
  unit_x :: real
  unit_y :: real
  speed :: real

text \<open>\<^verbatim>\<open>static_cast<int>\<close> of a \<^verbatim>\<open>float\<close>: the fractional part is dropped.\<close>

definition float_to_int :: "real \<Rightarrow> int" where
  "float_to_int v = (if 0 \<le> v then \<lfloor>v\<rfloor> else \<lceil>v\<rceil>)"

text \<open>
  The constructor.  \<open>tex\<close> is what the image load gives (\<open>None\<close> when
  \<^verbatim>\<open>SDL_LoadBMP\<close> fails), \<open>rd\<close> the generators of the brain's neurons.
\<close>

definition Unit :: "int \<Rightarrow> int \<Rightarrow> SDL_Texture option \<Rightarrow> (nat \<Rightarrow> nat \<Rightarrow> rng) \<Rightarrow> fault + game_unit" where
  "Unit startX startY tex rd =
     (case NeuralNetwork [4, 6, 2] rd of
        Inl e \<Rightarrow> Inl e
      | Inr b \<Rightarrow>
          Inr \<lparr>rect = \<lparr>rect_x = float_to_int (real_of_int startX),
                       rect_y = float_to_int (real_of_int startY),
                       rect_w = 40, rect_h = 40\<rparr>,
               texture = tex,
               brain = b,
               unit_x = real_of_int startX,
               unit_y = real_of_int startY,
               speed = 2\<rparr>)"

text \<open>
  \<^verbatim>\<open>atan2f\<close> is the library's two-argument arctangent: the angle of the point
  \<open>(x, y)\<close> in \<open>(-\<pi>, \<pi>]\<close>, and 0 at the origin.
\<close>

definition atan2f :: "real \<Rightarrow> real \<Rightarrow> real" where
  "atan2f y x =
     (if 0 < x then arctan (y / x)
      else if x < 0 then (if 0 \<le> y then arctan (y / x) + pi else arctan (y / x) - pi)
      else if 0 < y then pi / 2
      else if y < 0 then - (pi / 2)
      else 0)"

text \<open>
  \<^verbatim>\<open>Unit::update\<close> in the order of its comments.  ``Calculate inputs for neural
  network'': the local vector \<open>inputs\<close>.  \<^verbatim>\<open>target.x - x\<close> converts the
  \<^verbatim>\<open>int\<close> to \<^verbatim>\<open>float\<close>.
\<close>

definition unit_inputs :: "game_unit \<Rightarrow> SDL_Point \<Rightarrow> real list" where
  "unit_inputs u target =
     (let dx = real_of_int (point_x target) - unit_x u;
          dy = real_of_int (point_y target) - unit_y u;
          distance = sqrt (dx * dx + dy * dy);
          angle = atan2f dy dx
      in [distance / 800, angle / pi, speed u / 5, 0])"

text \<open>
  ``Feed inputs to neural network'', ``Use outputs to control unit'' and ``Update
  position'': the unit after \<^verbatim>\<open>x += cosf(direction) * speed; y += sinf(direction) *
  speed;\<close>, before the bounds are applied.  \<open>outputs[0]\<close> and \<open>outputs[1]\<close> are
  unchecked reads.
\<close>

definition steer :: "game_unit \<Rightarrow> SDL_Point \<Rightarrow> fault + game_unit" where
  "steer u target =
     (case feedForward (brain u) (unit_inputs u target) of
        (Inl e, b) \<Rightarrow> Inl e
      | (Inr outputs, b) \<Rightarrow>
          if length outputs < 2 then Inl OutOfBounds
          else
            (let speed' = outputs ! 0 * 5;
                 direction = outputs ! 1 * pi
             in Inr (u\<lparr>brain := b,
                       speed := speed',
                       unit_x := unit_x u + cos direction * speed',
                       unit_y := unit_y u + sin direction * speed'\<rparr>)))"

text \<open>
  ``Keep units within window bounds'': four \<^verbatim>\<open>if\<close>s in sequence, the second of each
  pair reading the value the first may have written.
\<close>

definition keep_in_bounds :: "game_unit \<Rightarrow> game_unit" where
  "keep_in_bounds u =
     (let x1 = (if unit_x u < 0 then 0 else unit_x u);
          x2 = (if x1 > real_of_int (800 - rect_w (rect u))
                then real_of_int (800 - rect_w (rect u)) else x1);
          y1 = (if unit_y u < 0 then 0 else unit_y u);
          y2 = (if y1 > real_of_int (600 - rect_h (rect u))
                then real_of_int (600 - rect_h (rect u)) else y1)
      in u\<lparr>unit_x := x2, unit_y := y2\<rparr>)"

text \<open>``Update rect position''.\<close>

definition update_rect :: "game_unit \<Rightarrow> game_unit" where
  "update_rect u =
     u\<lparr>rect := (rect u)\<lparr>rect_x := float_to_int (unit_x u),
                         rect_y := float_to_int (unit_y u)\<rparr>\<rparr>"

definition Unit_update :: "game_unit \<Rightarrow> SDL_Point \<Rightarrow> fault + game_unit" where
  "Unit_update u target =
     (case steer u target of
        Inl e \<Rightarrow> Inl e
      | Inr u1 \<Rightarrow> Inr (update_rect (keep_in_bounds u1)))"

section \<open>Game\<close>

record game =
  window :: "SDL_Window option"
  renderer :: "SDL_Renderer option"
  running :: bool
  units :: "game_unit list"
  target :: SDL_Point
  targetTexture :: "SDL_Texture option"

definition Game :: game where
  "Game = \<lparr>window = None, renderer = None, running = False, units = [],
           target = \<lparr>point_x = 400, point_y = 300\<rparr>, targetTexture = None\<rparr>"

text \<open>
  What the backend and the C library answer during \<open>init\<close>: the return value of
  \<^verbatim>\<open>SDL_Init\<close>, the window and renderer pointers, the target texture, and for the
  \<open>i\<close>-th unit the two values of \<^verbatim>\<open>rand()\<close> (never negative), its texture and
  the generators of its neurons.
\<close>

record backend =
  sdl_init :: int
  create_window :: "SDL_Window option"
  create_renderer :: "SDL_Renderer option"
  load_target :: "SDL_Texture option"
  rand_values :: "nat \<Rightarrow> nat \<times> nat"
  load_unit :: "nat \<Rightarrow> SDL_Texture option"
  random_device :: "nat \<Rightarrow> nat \<Rightarrow> nat \<Rightarrow> rng"

text \<open>\<^verbatim>\<open>for (int i = 0; i < 5; i++) units.push_back(std::make_unique<Unit>(...));\<close>\<close>

function init_units :: "backend \<Rightarrow> nat \<Rightarrow> game_unit list \<Rightarrow> fault + game_unit list" where
  "init_units be i us =
     (if i < 5 then
        (case Unit (int (fst (rand_values be i) mod 800)) (int (snd (rand_values be i) mod 600))
                   (load_unit be i) (random_device be i) of
           Inl e \<Rightarrow> Inl e
         | Inr u \<Rightarrow> init_units be (Suc i) (us @ [u]))
      else Inr us)"
  by pat_completeness auto
termination
  by (relation "measure (\<lambda>(be, i, us). 5 - i)") auto

declare init_units.simps [simp del]

text \<open>\<open>init\<close> returns its \<^verbatim>\<open>bool\<close> and the object as it leaves it.\<close>

definition init :: "backend \<Rightarrow> game \<Rightarrow> fault + bool \<times> game" where
  "init be g =
     (if sdl_init be < 0 then Inr (False, g)
      else
        (case create_window be of
           None \<Rightarrow> Inr (False, g\<lparr>window := None\<rparr>)
         | Some w \<Rightarrow>
            (case create_renderer be of
               None \<Rightarrow> Inr (False, g\<lparr>window := Some w, renderer := None\<rparr>)
             | Some r \<Rightarrow>
                (case init_units be 0 (units g) of
                   Inl e \<Rightarrow> Inl e
                 | Inr us \<Rightarrow>
                     Inr (True, g\<lparr>window := Some w, renderer := Some r,
                                  targetTexture := load_target be,
                                  units := us, running := True\<rparr>)))))"

text \<open>
  An event as \<open>handleEvents\<close> looks at it: its type and, for a button press, the
  coordinates \<^verbatim>\<open>event.button.x\<close>, \<^verbatim>\<open>event.button.y\<close>.  Every other type is
  \<open>SDL_OTHEREVENT\<close>.
\<close>

datatype SDL_Event = SDL_QUIT | SDL_MOUSEBUTTONDOWN int int | SDL_OTHEREVENT

text \<open>
  \<^verbatim>\<open>while (SDL_PollEvent(&event))\<close>: the list holds the events of the queue, in the
  order \<^verbatim>\<open>SDL_PollEvent\<close> hands them out, until it returns 0.
\<close>

fun handleEvents :: "game \<Rightarrow> SDL_Event list \<Rightarrow> game" where
  "handleEvents g [] = g"
| "handleEvents g (SDL_QUIT # evs) = handleEvents (g\<lparr>running := False\<rparr>) evs"
| "handleEvents g (SDL_MOUSEBUTTONDOWN px py # evs) =
     handleEvents (g\<lparr>target := \<lparr>point_x = px, point_y = py\<rparr>\<rparr>) evs"
| "handleEvents g (SDL_OTHEREVENT # evs) = handleEvents g evs"

text \<open>\<^verbatim>\<open>for (auto& unit : units) unit->update(target);\<close>\<close>

fun update_units :: "game_unit list \<Rightarrow> SDL_Point \<Rightarrow> fault + game_unit list" where
  "update_units [] t = Inr []"
| "update_units (u # us) t =
     (case Unit_update u t of
        Inl e \<Rightarrow> Inl e
      | Inr u' \<Rightarrow>
         (case update_units us t of
            Inl e \<Rightarrow> Inl e
          | Inr us' \<Rightarrow> Inr (u' # us')))"

definition Game_update :: "game \<Rightarrow> fault + game" where
  "Game_update g =
     (case update_units (units g) (target g) of
        Inl e \<Rightarrow> Inl e
      | Inr us \<Rightarrow> Inr (g\<lparr>units := us\<rparr>))"

definition isRunning :: "game \<Rightarrow> bool" where
  "isRunning g = running g"

text \<open>
  One pass of the loop body of \<open>main\<close>.  \<open>render\<close> and \<^verbatim>\<open>SDL_Delay\<close> only read
  the game and talk to the backend, so they leave this state as it is.
\<close>

definition frame :: "game \<Rightarrow> SDL_Event list \<Rightarrow> fault + game" where
  "frame g evs = Game_update (handleEvents g evs)"

text \<open>
  \<^verbatim>\<open>while (game.isRunning()) { ... }\<close>.  \<open>queue n\<close> is the content of the event
  queue when the \<open>n\<close>-th pass polls it.  The loop may run forever: then the result
  is \<open>None\<close>.
\<close>

partial_function (option) game_loop :: "game \<Rightarrow> (nat \<Rightarrow> SDL_Event list) \<Rightarrow> nat \<Rightarrow> (fault + game) option" where
  "game_loop g queue n =
     (if isRunning g then
        (case frame g (queue n) of
           Inl e \<Rightarrow> Some (Inl e)
         | Inr g' \<Rightarrow> game_loop g' queue (Suc n))
      else Some (Inr g))"

text \<open>\<open>main\<close>: the value is the exit code of the process.\<close>

definition main :: "backend \<Rightarrow> (nat \<Rightarrow> SDL_Event list) \<Rightarrow> (fault + int) option" where
  "main be queue =
     (case init be Game of
        Inl e \<Rightarrow> Some (Inl e)
      | Inr (ok, g) \<Rightarrow>
          if \<not> ok then Some (Inr (- 1))
          else
            (case game_loop g queue 0 of
               None \<Rightarrow> None
             | Some (Inl e) \<Rightarrow> Some (Inl e)
             | Some (Inr g') \<Rightarrow> Some (Inr 0)))"

section \<open>Notions used to state the properties\<close>

text \<open>
  What the constructors build, written without loops: a neuron whose weights are
  the distribution's values at the first canonical numbers of its generator and
  whose bias is 0, a layer of such neurons, and the layers of a topology from
  position \<open>i\<close> on.
\<close>

definition fresh_neuron :: "int \<Rightarrow> rng \<Rightarrow> neuron" where
  "fresh_neuron numInputs gen =
     \<lparr>weights = map (\<lambda>k. uniform_real_distribution (- 1) 1 (gen k)) [0..<nat numInputs],
      bias = 0\<rparr>"

definition fresh_layer :: "int \<Rightarrow> int \<Rightarrow> (nat \<Rightarrow> rng) \<Rightarrow> neuron list" where
  "fresh_layer numInputs n rd = map (\<lambda>j. fresh_neuron numInputs (rd j)) [0..<nat n]"

definition fresh_layers :: "int list \<Rightarrow> (nat \<Rightarrow> nat \<Rightarrow> rng) \<Rightarrow> nat \<Rightarrow> neuron list list" where
  "fresh_layers topology rd i =
     map (\<lambda>l. fresh_layer (topology ! l) (topology ! Suc l) (rd l)) [i..<length topology - 1]"

text \<open>
  The forward pass as the specification words it: a neuron yields
  \<open>tanh (bias + \<Sum> inputs[k] \<sqdot> weights[k])\<close>, a layer yields the values of its neurons,
  and each layer feeds the next.
\<close>

definition neuron_value :: "neuron \<Rightarrow> real list \<Rightarrow> real" where
  "neuron_value n inputs = tanh (bias n + (\<Sum>k = 0..<length inputs. inputs ! k * weights n ! k))"

fun forward :: "neuron list list \<Rightarrow> real list \<Rightarrow> real list" where
  "forward [] inputs = inputs"
| "forward (layer # ls) inputs = forward ls (map (\<lambda>n. neuron_value n inputs) layer)"

text \<open>The same with the rounded value.\<close>

definition neuron_value32 :: "neuron \<Rightarrow> real list \<Rightarrow> real" where
  "neuron_value32 n inputs =
     float_tanh (bias n + (\<Sum>k = 0..<length inputs. inputs ! k * weights n ! k))"

fun forward32 :: "neuron list list \<Rightarrow> real list \<Rightarrow> real list" where
  "forward32 [] inputs = inputs"
| "forward32 (layer # ls) inputs = forward32 ls (map (\<lambda>n. neuron_value32 n inputs) layer)"

text \<open>
  The dimensions fit: every neuron of the first layer has \<open>w\<close> weights, and every
  neuron of a later layer has as many weights as the layer before it has neurons.
\<close>

fun dims_ok :: "nat \<Rightarrow> neuron list list \<Rightarrow> bool" where
  "dims_ok w [] = True"
| "dims_ok w (layer # ls) = ((\<forall>n \<in> set layer. length (weights n) = w) \<and> dims_ok (length layer) ls)"


definition canonical :: "nat \<Rightarrow> nat \<Rightarrow> real" where
  "canonical M r = real r / real M"




text \<open>
  The units the program can hold: what the constructor returns, and what
  \<open>Unit_update\<close> makes of such a unit.
\<close>

inductive reachable_unit :: "game_unit \<Rightarrow> bool" where
  constructed: "Unit startX startY tex rd = Inr u \<Longrightarrow> reachable_unit u"
| updated: "reachable_unit u \<Longrightarrow> Unit_update u t = Inr u' \<Longrightarrow> reachable_unit u'"

text \<open>What every such unit satisfies: a 40 by 40 box and a brain of shape 4, 6, 2.\<close>

definition unit_inv :: "game_unit \<Rightarrow> bool" where
  "unit_inv u \<longleftrightarrow>
     rect_w (rect u) = 40 \<and> rect_h (rect u) = 40 \<and>
     dims_ok 4 (layers (brain u)) \<and> layers (brain u) \<noteq> [] \<and>
     length (last (layers (brain u))) = 2"

definition unit_outputs :: "game_unit \<Rightarrow> SDL_Point \<Rightarrow> real list" where
  "unit_outputs u t = forward (layers (brain u)) (unit_inputs u t)"

text \<open>
  Concrete inputs for the examples: generators whose canonical number is always
  \<open>1/2\<close> (every weight is 0) or always \<open>3/4\<close> (every weight is \<open>1/2\<close>), the
  brain built from the former, a unit with that brain, and the initial target.
\<close>

definition zero_rd :: "nat \<Rightarrow> nat \<Rightarrow> rng" where
  "zero_rd l j k = 1 / 2"

definition half_gen :: rng where
  "half_gen k = 3 / 4"

definition half_rd :: "nat \<Rightarrow> nat \<Rightarrow> rng" where
  "half_rd l j = half_gen"

definition zero_brain :: network where
  "zero_brain =
     \<lparr>layers = [replicate 6 \<lparr>weights = [0, 0, 0, 0], bias = 0\<rparr>,
                replicate 2 \<lparr>weights = [0, 0, 0, 0, 0, 0], bias = 0\<rparr>]\<rparr>"

definition still_unit :: "int \<Rightarrow> int \<Rightarrow> game_unit" where
  "still_unit sx sy =
     \<lparr>rect = \<lparr>rect_x = sx, rect_y = sy, rect_w = 40, rect_h = 40\<rparr>,
      texture = None, brain = zero_brain,
      unit_x = real_of_int sx, unit_y = real_of_int sy, speed = 2\<rparr>"

text \<open>The network of topology 1, 1 whose one weight is \<open>1/2\<close>.\<close>

definition saturated_net :: network where
  "saturated_net = \<lparr>layers = [\<lparr>weights = [1 / 2], bias = 0\<rparr>] # []\<rparr>"

definition centre :: SDL_Point where
  "centre = \<lparr>point_x = 400, point_y = 300\<rparr>"

text \<open>
  The coordinates of the button presses of an event list, in order, and the games
  all of whose units are reachable.
\<close>

fun presses :: "SDL_Event list \<Rightarrow> SDL_Point list" where
  "presses [] = []"
| "presses (SDL_QUIT # evs) = presses evs"
| "presses (SDL_MOUSEBUTTONDOWN px py # evs) = \<lparr>point_x = px, point_y = py\<rparr> # presses evs"
| "presses (SDL_OTHEREVENT # evs) = presses evs"

definition units_reachable :: "game \<Rightarrow> bool" where
  "units_reachable g = list_all reachable_unit (units g)"

text \<open>The three ways in which \<open>init\<close> returns \<^verbatim>\<open>false\<close>.\<close>

definition setup_fails :: "backend \<Rightarrow> bool" where
  "setup_fails be \<longleftrightarrow> sdl_init be < 0 \<or> create_window be = None \<or> create_renderer be = None"

text \<open>
  The game after some passes of the loop body of \<open>main\<close>, one event list per
  pass, whatever \<open>running\<close> says.
\<close>

fun frames :: "game \<Rightarrow> SDL_Event list list \<Rightarrow> fault + game" where
  "frames g [] = Inr g"
| "frames g (evs # evss) =
     (case frame g evs of
        Inl e \<Rightarrow> Inl e
      | Inr g' \<Rightarrow> frames g' evss)"

text \<open>
  More concrete inputs: a backend whose \<^verbatim>\<open>SDL_Init\<close> fails, one where everything
  but the images works (\<^verbatim>\<open>rand()\<close> returns 0, the generators return 0), the game
  that \<open>init\<close> builds on the latter, an event queue with a close event in the
  third pass and one with none.
\<close>

definition failing_backend :: backend where
  "failing_backend =
     \<lparr>sdl_init = - 1, create_window = None, create_renderer = None, load_target = None,
      rand_values = (\<lambda>i. (0, 0)), load_unit = (\<lambda>i. None), random_device = (\<lambda>i. zero_rd)\<rparr>"

definition working_backend :: backend where
  "working_backend =
     \<lparr>sdl_init = 0, create_window = Some 1, create_renderer = Some 2, load_target = None,
      rand_values = (\<lambda>i. (0, 0)), load_unit = (\<lambda>i. None), random_device = (\<lambda>i. zero_rd)\<rparr>"

definition started_game :: game where
  "started_game =
     \<lparr>window = Some 1, renderer = Some 2, running = True,
      units = replicate 5 (still_unit 0 0), target = centre, targetTexture = None\<rparr>"

definition quit_in_third :: "nat \<Rightarrow> SDL_Event list" where
  "quit_in_third n = (if n = 2 then [SDL_OTHEREVENT, SDL_QUIT] else [])"

definition never_quit :: "nat \<Rightarrow> SDL_Event list" where
  "never_quit n = [SDL_MOUSEBUTTONDOWN 10 20]"

section \<open>Lemmas about the loops\<close>

lemma activate_loop_ok:
  "length inputs \<le> length ws \<Longrightarrow> i \<le> length inputs \<Longrightarrow>
   activate_loop ws inputs i sm = Inr (sm + (\<Sum>k = i..<length inputs. inputs ! k * ws ! k))"
proof (induction ws inputs i sm rule: activate_loop.induct)
  case (1 ws inputs i sm)
  show ?case
  proof (cases "i < length inputs")
    case True
    then have iw: "i < length ws" using 1(2) by simp
    have ih: "activate_loop ws inputs (Suc i) (sm + inputs ! i * ws ! i) =
          Inr ((sm + inputs ! i * ws ! i) + (\<Sum>k = Suc i..<length inputs. inputs ! k * ws ! k))"
      using 1(1)[OF True iw 1(2)] True by simp
    have "activate_loop ws inputs i sm = activate_loop ws inputs (Suc i) (sm + inputs ! i * ws ! i)"
      by (subst activate_loop.simps) (simp only: True iw if_True)
    also note ih
    finally show ?thesis
      using True by (simp only: sum.atLeast_Suc_lessThan add.assoc)
  next
    case False
    then have "activate_loop ws inputs i sm = Inr sm"
      by (subst activate_loop.simps) (simp only: if_False)
    then show ?thesis
      using False by simp
  qed
qed

lemma activate_loop_fault:
  "length ws < length inputs \<Longrightarrow> i \<le> length ws \<Longrightarrow>
   activate_loop ws inputs i sm = Inl OutOfBounds"
proof (induction ws inputs i sm rule: activate_loop.induct)
  case (1 ws inputs i sm)
  have ii: "i < length inputs" using 1(2,3) by simp
  show ?case
  proof (cases "i < length ws")
    case True
    have "activate_loop ws inputs i sm = activate_loop ws inputs (Suc i) (sm + inputs ! i * ws ! i)"
      by (subst activate_loop.simps) (simp only: True ii if_True)
    also have "\<dots> = Inl OutOfBounds"
      using 1(1)[OF ii True 1(2)] True by simp
    finally show ?thesis .
  next
    case False
    show ?thesis
      by (subst activate_loop.simps) (simp only: False ii if_True if_False)
  qed
qed

lemma Neuron_eq: "0 \<le> numInputs \<Longrightarrow> Neuron numInputs gen = Inr (fresh_neuron numInputs gen)"
  by (simp add: Neuron_def fresh_neuron_def Let_def)

lemma layer_loop_eq:
  "0 \<le> numInputs \<Longrightarrow> 0 \<le> j \<Longrightarrow>
   layer_loop numInputs n rd j layer =
     Inr (layer @ map (\<lambda>k. fresh_neuron numInputs (rd k)) [nat j..<nat n])"
proof (induction numInputs n rd j layer rule: layer_loop.induct)
  case (1 numInputs n rd j layer)
  show ?case
  proof (cases "j < n")
    case True
    have nr: "Neuron numInputs (rd (nat j)) = Inr (fresh_neuron numInputs (rd (nat j)))"
      using 1(2) by (rule Neuron_eq)
    have up: "[nat j..<nat n] = nat j # [nat (j + 1)..<nat n]"
      using True 1(3) by (simp add: upt_conv_Cons nat_add_distrib)
    have ih: "layer_loop numInputs n rd (j + 1) (layer @ [fresh_neuron numInputs (rd (nat j))]) =
       Inr ((layer @ [fresh_neuron numInputs (rd (nat j))]) @
         map (\<lambda>k. fresh_neuron numInputs (rd k)) [nat (j + 1)..<nat n])"
      using 1(1)[OF True nr 1(2)] 1(3) by simp
    have "layer_loop numInputs n rd j layer =
        layer_loop numInputs n rd (j + 1) (layer @ [fresh_neuron numInputs (rd (nat j))])"
      by (subst layer_loop.simps) (simp only: True nr if_True sum.case)
    also note ih
    finally show ?thesis
      by (simp only: up list.map append_assoc append.simps)
  next
    case False
    then show ?thesis
      by (subst layer_loop.simps) simp
  qed
qed

lemma layer_loop_fresh:
  "0 \<le> numInputs \<Longrightarrow> layer_loop numInputs n rd 0 [] = Inr (fresh_layer numInputs n rd)"
  using layer_loop_eq [of numInputs 0 n rd "[]"]
  by (simp add: fresh_layer_def)

lemma network_loop_eq:
  "\<forall>t \<in> set topology. 0 \<le> t \<Longrightarrow> 1 \<le> i \<Longrightarrow>
   network_loop topology rd i ls = Inr (ls @ fresh_layers topology rd (i - 1))"
proof (induction topology rd i ls rule: network_loop.induct)
  case (1 topology rd i ls)
  show ?case
  proof (cases "i < length topology")
    case True
    have nn: "0 \<le> topology ! (i - 1)"
      using 1(2) True by (simp add: less_imp_diff_less)
    have ll: "layer_loop (topology ! (i - 1)) (topology ! i) (rd (i - 1)) 0 [] =
        Inr (fresh_layer (topology ! (i - 1)) (topology ! i) (rd (i - 1)))"
      using nn by (rule layer_loop_fresh)
    have ih: "network_loop topology rd (Suc i) (ls @ [fresh_layer (topology ! (i - 1)) (topology ! i) (rd (i - 1))]) =
        Inr ((ls @ [fresh_layer (topology ! (i - 1)) (topology ! i) (rd (i - 1))]) @ fresh_layers topology rd i)"
      using 1(1)[OF True ll 1(2)] by simp
    have fl: "fresh_layers topology rd (i - 1) =
        fresh_layer (topology ! (i - 1)) (topology ! i) (rd (i - 1)) # fresh_layers topology rd i"
    proof -
      obtain k where k: "i = Suc k"
        using 1(3) by (cases i) auto
      have "[k..<length topology - 1] = k # [Suc k..<length topology - 1]"
        using True k by (simp add: upt_conv_Cons)
      then show ?thesis
        by (simp add: fresh_layers_def k)
    qed
    have "network_loop topology rd i ls =
        network_loop topology rd (Suc i) (ls @ [fresh_layer (topology ! (i - 1)) (topology ! i) (rd (i - 1))])"
      by (subst network_loop.simps) (simp only: True ll if_True sum.case)
    also note ih
    finally show ?thesis
      unfolding fl by simp
  next
    case False
    have "network_loop topology rd i ls = Inr ls"
      by (subst network_loop.simps) (simp only: False if_False)
    then show ?thesis
      using False by (simp add: fresh_layers_def)
  qed
qed

lemma NeuralNetwork_eq:
  "\<forall>t \<in> set topology. 0 \<le> t \<Longrightarrow>
   NeuralNetwork topology rd = Inr \<lparr>layers = fresh_layers topology rd 0\<rparr>"
  using network_loop_eq [of topology 1 rd "[]"]
  by (simp add: NeuralNetwork_def)

lemma activate_eq:
  "length inputs \<le> length (weights n) \<Longrightarrow> activate n inputs = Inr (neuron_value n inputs)"
  using activate_loop_ok [of inputs "weights n" 0 "bias n"]
  by (simp add: activate_def neuron_value_def)

lemma activate_fault:
  "length (weights n) < length inputs \<Longrightarrow> activate n inputs = Inl OutOfBounds"
  using activate_loop_fault [of "weights n" inputs 0 "bias n"]
  by (simp add: activate_def)

lemma layer_outputs_eq:
  "\<forall>n \<in> set layer. length inputs \<le> length (weights n) \<Longrightarrow>
   layer_outputs layer inputs outputs = Inr (outputs @ map (\<lambda>n. neuron_value n inputs) layer)"
  by (induction layer arbitrary: outputs) (simp_all add: activate_eq)

lemma feed_layers_eq:
  "dims_ok (length inputs) ls \<Longrightarrow> feed_layers ls inputs = Inr (forward ls inputs)"
proof (induction ls arbitrary: inputs)
  case Nil
  show ?case by simp
next
  case (Cons layer ls)
  have lo: "layer_outputs layer inputs [] = Inr (map (\<lambda>n. neuron_value n inputs) layer)"
    using Cons.prems layer_outputs_eq [of layer inputs "[]"] by simp
  have "dims_ok (length (map (\<lambda>n. neuron_value n inputs) layer)) ls"
    using Cons.prems by simp
  then have "feed_layers ls (map (\<lambda>n. neuron_value n inputs) layer) =
      Inr (forward ls (map (\<lambda>n. neuron_value n inputs) layer))"
    by (rule Cons.IH)
  then show ?case
    by (simp add: lo)
qed

lemma length_forward:
  "ls \<noteq> [] \<Longrightarrow> length (forward ls inputs) = length (last ls)"
proof (induction ls arbitrary: inputs)
  case Nil
  then show ?case by simp
next
  case (Cons layer ls)
  show ?case
  proof (cases "ls = []")
    case True
    then show ?thesis by simp
  next
    case False
    then show ?thesis using Cons.IH by simp
  qed
qed

lemma neuron_value_bounds: "- 1 < neuron_value n inputs \<and> neuron_value n inputs < 1"
  using tanh_real_gt_neg1 tanh_real_lt_1 by (simp add: neuron_value_def)

lemma forward_bounds:
  "ls \<noteq> [] \<Longrightarrow> v \<in> set (forward ls inputs) \<Longrightarrow> - 1 < v \<and> v < 1"
proof (induction ls arbitrary: inputs)
  case Nil
  then show ?case by simp
next
  case (Cons layer ls)
  show ?case
  proof (cases "ls = []")
    case True
    then show ?thesis
      using Cons.prems neuron_value_bounds by auto
  next
    case False
    then show ?thesis
      using Cons.IH Cons.prems by simp
  qed
qed

lemma length_fresh_layer: "length (fresh_layer numInputs n rd) = nat n"
  by (simp add: fresh_layer_def)

lemma weights_fresh_layer:
  "nr \<in> set (fresh_layer numInputs n rd) \<Longrightarrow> length (weights nr) = nat numInputs"
  by (auto simp add: fresh_layer_def fresh_neuron_def)

lemma fresh_layers_step:
  "Suc i < length topology \<Longrightarrow>
   fresh_layers topology rd i =
     fresh_layer (topology ! i) (topology ! Suc i) (rd i) # fresh_layers topology rd (Suc i)"
  by (simp add: fresh_layers_def upt_conv_Cons)

lemma fresh_layers_done:
  "length topology \<le> Suc i \<Longrightarrow> fresh_layers topology rd i = []"
  by (simp add: fresh_layers_def)

lemma dims_ok_fresh_layers:
  "dims_ok (nat (topology ! i)) (fresh_layers topology rd i)"
proof (induction "length topology - i" arbitrary: i)
  case 0
  then show ?case by (simp add: fresh_layers_done)
next
  case (Suc d)
  show ?case
  proof (cases "Suc i < length topology")
    case True
    have "dims_ok (nat (topology ! Suc i)) (fresh_layers topology rd (Suc i))"
      using Suc.hyps(1)[of "Suc i"] Suc.hyps(2) by simp
    then show ?thesis
      using True by (simp add: fresh_layers_step length_fresh_layer weights_fresh_layer)
  next
    case False
    then show ?thesis by (simp add: fresh_layers_done)
  qed
qed

lemma length_fresh_layers: "length (fresh_layers topology rd i) = length topology - 1 - i"
  by (simp add: fresh_layers_def)

lemma nth_fresh_layers:
  "i < length topology - 1 \<Longrightarrow>
   fresh_layers topology rd 0 ! i = fresh_layer (topology ! i) (topology ! Suc i) (rd i)"
  by (simp add: fresh_layers_def)

lemma last_fresh_layers:
  "2 \<le> length topology \<Longrightarrow>
   last (fresh_layers topology rd 0) =
     fresh_layer (topology ! (length topology - 2)) (last topology) (rd (length topology - 2))"
proof -
  assume len: "2 \<le> length topology"
  have ne: "fresh_layers topology rd 0 \<noteq> []"
    using len by (simp add: fresh_layers_def)
  have "last (fresh_layers topology rd 0) =
      fresh_layers topology rd 0 ! (length (fresh_layers topology rd 0) - 1)"
    using ne by (rule last_conv_nth)
  also have "length (fresh_layers topology rd 0) - 1 = length topology - 2"
    by (simp add: length_fresh_layers)
  also have "fresh_layers topology rd 0 ! (length topology - 2) =
      fresh_layer (topology ! (length topology - 2)) (topology ! Suc (length topology - 2))
        (rd (length topology - 2))"
    using len by (intro nth_fresh_layers) simp
  also have "topology ! Suc (length topology - 2) = last topology"
    using len by (cases topology) (auto simp add: last_conv_nth Suc_diff_Suc numeral_2_eq_2)
  finally show ?thesis .
qed

lemma float_to_int_of_int: "float_to_int (real_of_int k) = k"
  by (simp add: float_to_int_def)

lemma Unit_eq:
  "Unit startX startY tex rd =
     Inr \<lparr>rect = \<lparr>rect_x = startX, rect_y = startY, rect_w = 40, rect_h = 40\<rparr>,
          texture = tex,
          brain = \<lparr>layers = fresh_layers [4, 6, 2] rd 0\<rparr>,
          unit_x = real_of_int startX,
          unit_y = real_of_int startY,
          speed = 2\<rparr>"
proof -
  have "NeuralNetwork [4, 6, 2] rd = Inr \<lparr>layers = fresh_layers [4, 6, 2] rd 0\<rparr>"
    by (rule NeuralNetwork_eq) simp
  then show ?thesis
    by (simp add: Unit_def float_to_int_of_int)
qed

lemma fresh_layers_462:
  "fresh_layers [4, 6, 2] rd 0 = [fresh_layer 4 6 (rd 0), fresh_layer 6 2 (rd 1)]"
  by (simp add: fresh_layers_def upt_conv_Cons)

lemma unit_inv_Unit: "Unit startX startY tex rd = Inr u \<Longrightarrow> unit_inv u"
  using dims_ok_fresh_layers [of "[4, 6, 2]" 0 rd]
  by (auto simp add: Unit_eq unit_inv_def fresh_layers_462 length_fresh_layer)

lemma length_unit_inputs: "length (unit_inputs u t) = 4"
  by (simp add: unit_inputs_def Let_def)

lemma feedForward_unit:
  "unit_inv u \<Longrightarrow> feedForward (brain u) (unit_inputs u t) = (Inr (unit_outputs u t), brain u)"
  using feed_layers_eq [of "unit_inputs u t" "layers (brain u)"]
  by (simp add: feedForward_def unit_outputs_def unit_inv_def length_unit_inputs)

lemma length_unit_outputs: "unit_inv u \<Longrightarrow> length (unit_outputs u t) = 2"
  using length_forward [of "layers (brain u)" "unit_inputs u t"]
  by (simp add: unit_outputs_def unit_inv_def)

lemma steer_eq:
  "unit_inv u \<Longrightarrow>
   steer u t =
     Inr (u\<lparr>speed := unit_outputs u t ! 0 * 5,
            unit_x := unit_x u + cos (unit_outputs u t ! 1 * pi) * (unit_outputs u t ! 0 * 5),
            unit_y := unit_y u + sin (unit_outputs u t ! 1 * pi) * (unit_outputs u t ! 0 * 5)\<rparr>)"
  by (simp add: steer_def feedForward_unit length_unit_outputs Let_def)

lemma Unit_update_eq:
  "unit_inv u \<Longrightarrow>
   Unit_update u t =
     Inr (update_rect (keep_in_bounds
       (u\<lparr>speed := unit_outputs u t ! 0 * 5,
          unit_x := unit_x u + cos (unit_outputs u t ! 1 * pi) * (unit_outputs u t ! 0 * 5),
          unit_y := unit_y u + sin (unit_outputs u t ! 1 * pi) * (unit_outputs u t ! 0 * 5)\<rparr>)))"
  by (simp add: Unit_update_def steer_eq)

lemma brain_update_rect: "brain (update_rect u) = brain u"
  by (simp add: update_rect_def)

lemma brain_keep_in_bounds: "brain (keep_in_bounds u) = brain u"
  by (simp add: keep_in_bounds_def Let_def)

lemma rect_wh_update_rect:
  "rect_w (rect (update_rect u)) = rect_w (rect u) \<and> rect_h (rect (update_rect u)) = rect_h (rect u)"
  by (simp add: update_rect_def)

lemma rect_keep_in_bounds: "rect (keep_in_bounds u) = rect u"
  by (simp add: keep_in_bounds_def Let_def)

lemma steer_keeps:
  "steer u t = Inr u1 \<Longrightarrow> brain u1 = brain u \<and> rect u1 = rect u \<and> texture u1 = texture u"
  by (auto simp add: steer_def feedForward_def Let_def split: sum.splits if_splits)

lemma Unit_update_keeps:
  "Unit_update u t = Inr u' \<Longrightarrow>
   brain u' = brain u \<and> texture u' = texture u \<and>
   rect_w (rect u') = rect_w (rect u) \<and> rect_h (rect u') = rect_h (rect u)"
  by (auto simp add: Unit_update_def update_rect_def keep_in_bounds_def Let_def
      dest!: steer_keeps split: sum.splits)

lemma unit_inv_update: "unit_inv u \<Longrightarrow> Unit_update u t = Inr u' \<Longrightarrow> unit_inv u'"
  using Unit_update_keeps [of u t u'] by (simp add: unit_inv_def)

lemma reachable_unit_inv: "reachable_unit u \<Longrightarrow> unit_inv u"
  by (induction rule: reachable_unit.induct) (auto intro: unit_inv_Unit unit_inv_update)

lemma replicate_6: "replicate 6 a = [a, a, a, a, a, a]"
  by (simp add: eval_nat_numeral)

lemma replicate_2: "replicate 2 a = [a, a]"
  by (simp add: eval_nat_numeral)

lemma zero_brain_fresh: "\<lparr>layers = fresh_layers [4, 6, 2] zero_rd 0\<rparr> = zero_brain"
  unfolding zero_brain_def replicate_6 replicate_2
  by (simp add: fresh_layers_462 fresh_layer_def fresh_neuron_def zero_rd_def upt_conv_Cons
      uniform_real_distribution_def)

lemma Unit_still: "Unit sx sy None zero_rd = Inr (still_unit sx sy)"
  by (simp add: Unit_eq zero_brain_fresh still_unit_def)

lemma reachable_still: "reachable_unit (still_unit sx sy)"
  using Unit_still by (rule reachable_unit.constructed)

lemma neuron_value_zero:
  "bias n = 0 \<Longrightarrow> \<forall>w \<in> set (weights n). w = 0 \<Longrightarrow> length inputs \<le> length (weights n) \<Longrightarrow>
   neuron_value n inputs = 0"
proof -
  assume b: "bias n = 0" and w: "\<forall>w \<in> set (weights n). w = 0"
    and l: "length inputs \<le> length (weights n)"
  have "inputs ! k * weights n ! k = 0" if "k \<in> {0..<length inputs}" for k
    using that w l by simp
  then have "(\<Sum>k = 0..<length inputs. inputs ! k * weights n ! k) = 0"
    by (rule sum.neutral [rule_format])
  then show ?thesis
    using b by (simp add: neuron_value_def)
qed

lemma outputs_still: "unit_outputs (still_unit sx sy) t = [0, 0]"
  by (simp add: unit_outputs_def still_unit_def zero_brain_def neuron_value_zero
      length_unit_inputs numeral_2_eq_2)

lemma steer_still:
  "steer (still_unit sx sy) t = Inr ((still_unit sx sy)\<lparr>speed := 0\<rparr>)"
  using steer_eq [OF reachable_unit_inv [OF reachable_still], of sx sy t]
  unfolding outputs_still by (simp add: still_unit_def)

lemma Unit_update_still:
  "Unit_update (still_unit sx sy) t =
     Inr (update_rect (keep_in_bounds ((still_unit sx sy)\<lparr>speed := 0\<rparr>)))"
  by (simp add: Unit_update_def steer_still)



lemma map_constant: "\<forall>a \<in> set xs. f a = c \<Longrightarrow> map f xs = replicate (length xs) c"
  by (induction xs) simp_all

lemma forward_zero_brain: "forward (layers zero_brain) [a, b, c, d] = [0, 0]"
  by (simp add: zero_brain_def neuron_value_zero numeral_2_eq_2)

section \<open>Lemmas about the unit's update\<close>

lemma keep_in_bounds_x:
  "rect_w (rect u) = 40 \<Longrightarrow>
   unit_x (keep_in_bounds u) =
     (if unit_x u < 0 then 0 else if 760 < unit_x u then 760 else unit_x u)"
  by (simp add: keep_in_bounds_def Let_def)

lemma keep_in_bounds_y:
  "rect_h (rect u) = 40 \<Longrightarrow>
   unit_y (keep_in_bounds u) =
     (if unit_y u < 0 then 0 else if 560 < unit_y u then 560 else unit_y u)"
  by (simp add: keep_in_bounds_def Let_def)

lemma update_rect_xy: "unit_x (update_rect u) = unit_x u \<and> unit_y (update_rect u) = unit_y u"
  by (simp add: update_rect_def)

lemma steer_total: "unit_inv u \<Longrightarrow> \<exists>u1. steer u t = Inr u1"
  by (simp add: steer_eq)

lemma length_2_cases: "length xs = 2 \<Longrightarrow> \<exists>a b. xs = [a, b]"
  by (auto simp add: length_Suc_conv numeral_2_eq_2)

lemma still_after_steer:
  "steer (still_unit sx sy) t = Inr u1 \<Longrightarrow>
   unit_x u1 = real_of_int sx \<and> unit_y u1 = real_of_int sy"
proof -
  assume "steer (still_unit sx sy) t = Inr u1"
  then have "u1 = (still_unit sx sy)\<lparr>speed := 0\<rparr>"
    unfolding steer_still by simp
  then show ?thesis
    by (simp add: still_unit_def)
qed

section \<open>Lemmas about the game and its loop\<close>

lemma handleEvents_units: "units (handleEvents g evs) = units g"
  by (induction g evs rule: handleEvents.induct) simp_all

lemma handleEvents_target:
  "target (handleEvents g evs) = (if presses evs = [] then target g else last (presses evs))"
  by (induction g evs rule: handleEvents.induct) simp_all

lemma handleEvents_running:
  "running (handleEvents g evs) = (running g \<and> SDL_QUIT \<notin> set evs)"
  by (induction g evs rule: handleEvents.induct) auto

lemma presses_append: "presses (evs @ evs') = presses evs @ presses evs'"
  by (induction evs rule: presses.induct) simp_all

lemma update_units_reachable:
  "list_all reachable_unit us \<Longrightarrow>
   \<exists>us'. update_units us t = Inr us' \<and> list_all reachable_unit us' \<and>
          list_all2 (\<lambda>u u'. Unit_update u t = Inr u') us us'"
proof (induction us)
  case Nil
  show ?case by simp
next
  case (Cons u us)
  have ru: "reachable_unit u"
    using Cons.prems by simp
  have "unit_inv u"
    using ru by (rule reachable_unit_inv)
  then obtain u' where u': "Unit_update u t = Inr u'"
    using Unit_update_eq by blast
  have ru': "reachable_unit u'"
    using ru u' by (rule reachable_unit.updated)
  obtain us' where us': "update_units us t = Inr us'" "list_all reachable_unit us'"
      "list_all2 (\<lambda>u u'. Unit_update u t = Inr u') us us'"
    using Cons.IH Cons.prems by auto
  show ?case
    using u' ru' us' by simp
qed

lemma update_units_result:
  "update_units us t = Inr us' \<Longrightarrow> list_all2 (\<lambda>u u'. Unit_update u t = Inr u') us us'"
  by (induction us arbitrary: us') (auto split: sum.splits)

lemma Game_update_keeps:
  "Game_update g = Inr g' \<Longrightarrow>
   target g' = target g \<and> running g' = running g \<and>
   list_all2 (\<lambda>u u'. Unit_update u (target g) = Inr u') (units g) (units g')"
  by (auto simp add: Game_update_def update_units_result split: sum.splits)

lemma Game_update_total:
  "units_reachable g \<Longrightarrow> \<exists>g'. Game_update g = Inr g' \<and> units_reachable g'"
  using update_units_reachable [of "units g" "target g"]
  by (auto simp add: Game_update_def units_reachable_def)

lemma frame_total:
  "units_reachable g \<Longrightarrow>
   \<exists>g'. frame g evs = Inr g' \<and> units_reachable g' \<and>
        running g' = (running g \<and> SDL_QUIT \<notin> set evs) \<and>
        target g' = (if presses evs = [] then target g else last (presses evs))"
proof -
  assume "units_reachable g"
  then have "units_reachable (handleEvents g evs)"
    by (simp add: units_reachable_def handleEvents_units)
  then obtain g' where g': "Game_update (handleEvents g evs) = Inr g'" "units_reachable g'"
    using Game_update_total by blast
  show ?thesis
    using g' Game_update_keeps [OF g'(1)]
    by (simp add: frame_def handleEvents_running handleEvents_target)
qed

lemma init_units_reachable:
  "list_all reachable_unit us \<Longrightarrow>
   \<exists>us'. init_units be i us = Inr us' \<and> list_all reachable_unit us'"
proof (induction be i us rule: init_units.induct)
  case (1 be i us)
  show ?case
  proof (cases "i < 5")
    case True
    obtain u where u: "Unit (int (fst (rand_values be i) mod 800)) (int (snd (rand_values be i) mod 600))
        (load_unit be i) (random_device be i) = Inr u"
      using Unit_eq by blast
    have "reachable_unit u"
      using u by (rule reachable_unit.constructed)
    then have "list_all reachable_unit (us @ [u])"
      using 1(2) by simp
    then obtain us' where us': "init_units be (Suc i) (us @ [u]) = Inr us'" "list_all reachable_unit us'"
      using 1(1) [OF True u] by blast
    have "init_units be i us = init_units be (Suc i) (us @ [u])"
      by (subst init_units.simps) (simp only: True u if_True sum.case)
    then show ?thesis
      using us' by simp
  next
    case False
    have "init_units be i us = Inr us"
      by (subst init_units.simps) (simp only: False if_False)
    then show ?thesis
      using 1(2) by simp
  qed
qed

lemma init_fails:
  "setup_fails be \<Longrightarrow> \<exists>g'. init be g = Inr (False, g') \<and> target g' = target g"
  by (auto simp add: setup_fails_def init_def split: option.splits)

lemma init_ok:
  "\<not> setup_fails be \<Longrightarrow> units_reachable g \<Longrightarrow>
   \<exists>g'. init be g = Inr (True, g') \<and> target g' = target g \<and> running g' \<and> units_reachable g'"
proof -
  assume ok: "\<not> setup_fails be" and r: "units_reachable g"
  obtain us' where us': "init_units be 0 (units g) = Inr us'" "list_all reachable_unit us'"
    using init_units_reachable [of "units g" be 0] r by (auto simp add: units_reachable_def)
  show ?thesis
    using ok us' by (auto simp add: setup_fails_def init_def units_reachable_def split: option.splits)
qed

lemma units_reachable_Game: "units_reachable Game"
  by (simp add: units_reachable_def Game_def)

lemma game_loop_stopped: "\<not> running g \<Longrightarrow> game_loop g queue n = Some (Inr g)"
  by (subst game_loop.simps) (simp add: isRunning_def)

lemma game_loop_step:
  "running g \<Longrightarrow> frame g (queue n) = Inr g' \<Longrightarrow>
   game_loop g queue n = game_loop g' queue (Suc n)"
  by (subst game_loop.simps) (simp add: isRunning_def)

lemma game_loop_quits:
  "units_reachable g \<Longrightarrow> n \<le> m \<Longrightarrow> SDL_QUIT \<in> set (queue m) \<Longrightarrow>
   \<exists>g'. game_loop g queue n = Some (Inr g') \<and> \<not> running g'"
proof (induction "m - n" arbitrary: g n)
  case 0
  then have mn: "m = n" by simp
  show ?case
  proof (cases "running g")
    case True
    obtain g' where g': "frame g (queue n) = Inr g'" "running g' = (running g \<and> SDL_QUIT \<notin> set (queue n))"
      using frame_total [OF "0.prems"(1), of "queue n"] by blast
    have stop: "\<not> running g'"
      using g'(2) "0.prems"(3) mn by simp
    have "game_loop g queue n = game_loop g' queue (Suc n)"
      using True g'(1) by (rule game_loop_step)
    then show ?thesis
      using stop game_loop_stopped [OF stop, of queue "Suc n"] by simp
  next
    case False
    then show ?thesis
      using game_loop_stopped [OF False, of queue n] by simp
  qed
next
  case (Suc d)
  show ?case
  proof (cases "running g")
    case True
    obtain g' where g': "frame g (queue n) = Inr g'" "units_reachable g'"
      using frame_total [OF Suc.prems(1), of "queue n"] by blast
    have step: "game_loop g queue n = game_loop g' queue (Suc n)"
      using True g'(1) by (rule game_loop_step)
    have "d = m - Suc n" and "Suc n \<le> m"
      using Suc.hyps(2) by simp_all
    then have "\<exists>g''. game_loop g' queue (Suc n) = Some (Inr g'') \<and> \<not> running g''"
      using Suc.hyps(1) [of "Suc n" g'] g'(2) Suc.prems(3) by simp
    then show ?thesis
      using step by simp
  next
    case False
    then show ?thesis
      using game_loop_stopped [OF False, of queue n] by simp
  qed
qed

lemma game_loop_result_aux:
  assumes "game_loop g queue n = Some r"
  shows "units_reachable g \<longrightarrow>
   (\<exists>g'. r = Inr g' \<and> \<not> running g') \<and> (running g \<longrightarrow> (\<exists>m \<ge> n. SDL_QUIT \<in> set (queue m)))"
  using assms
proof (induct rule: game_loop.raw_induct)
  case (1 loop g queue n r)
  show ?case
  proof
    assume reach: "units_reachable g"
    show "(\<exists>g'. r = Inr g' \<and> \<not> running g') \<and>
        (running g \<longrightarrow> (\<exists>m \<ge> n. SDL_QUIT \<in> set (queue m)))"
    proof (cases "running g")
      case True
      obtain g' where g': "frame g (queue n) = Inr g'" "units_reachable g'"
          "running g' = (running g \<and> SDL_QUIT \<notin> set (queue n))"
        using frame_total [OF reach, of "queue n"] by blast
      have call: "loop g' queue (Suc n) = Some r"
        using 1(2) True g'(1) by (simp add: isRunning_def)
      have gl: "game_loop g' queue (Suc n) = Some r"
        using 1(3) game_loop_step [of g queue n g', OF True g'(1)] by simp
      have ih: "(\<exists>g''. r = Inr g'' \<and> \<not> running g'') \<and>
          (running g' \<longrightarrow> (\<exists>m \<ge> Suc n. SDL_QUIT \<in> set (queue m)))"
        using 1(1) [OF call gl] g'(2) by simp
      have "\<exists>m \<ge> n. SDL_QUIT \<in> set (queue m)"
      proof (cases "SDL_QUIT \<in> set (queue n)")
        case True
        then show ?thesis by blast
      next
        case False
        then have "running g'"
          using g'(3) \<open>running g\<close> by simp
        then obtain m where "Suc n \<le> m" "SDL_QUIT \<in> set (queue m)"
          using ih by blast
        then show ?thesis
          using Suc_leD by blast
      qed
      then show ?thesis
        using ih by simp
    next
      case False
      then show ?thesis
        using 1(2) by (auto simp add: isRunning_def)
    qed
  qed
qed (rule assms)

lemma game_loop_result:
  "game_loop g queue n = Some r \<Longrightarrow> units_reachable g \<Longrightarrow>
   (\<exists>g'. r = Inr g' \<and> \<not> running g') \<and> (running g \<longrightarrow> (\<exists>m \<ge> n. SDL_QUIT \<in> set (queue m)))"
  using game_loop_result_aux by blast

lemma presses_empty_iff: "presses evs = [] \<longleftrightarrow> (\<forall>px py. SDL_MOUSEBUTTONDOWN px py \<notin> set evs)"
  by (induction evs rule: presses.induct) auto

lemma init_keeps:
  "init be g = Inr (ok, g') \<Longrightarrow> units_reachable g \<Longrightarrow> target g' = target g \<and> units_reachable g'"
proof (cases "setup_fails be")
  case True
  assume "init be g = Inr (ok, g')" and "units_reachable g"
  then show ?thesis
    using True
    by (auto simp add: setup_fails_def init_def units_reachable_def split: option.splits if_splits)
next
  case False
  assume i: "init be g = Inr (ok, g')" and r: "units_reachable g"
  show ?thesis
    using init_ok [OF False r] i by auto
qed

lemma frames_no_press:
  "units_reachable g \<Longrightarrow> \<forall>evs \<in> set evss. presses evs = [] \<Longrightarrow>
   \<exists>g'. frames g evss = Inr g' \<and> target g' = target g"
proof (induction evss arbitrary: g)
  case Nil
  show ?case by simp
next
  case (Cons evs evss)
  obtain g1 where g1: "frame g evs = Inr g1" "units_reachable g1"
      "target g1 = (if presses evs = [] then target g else last (presses evs))"
    using frame_total [OF Cons.prems(1), of evs] by blast
  have t: "target g1 = target g"
    using g1(3) Cons.prems(2) by simp
  obtain g' where "frames g1 evss = Inr g'" "target g' = target g1"
    using Cons.IH [OF g1(2)] Cons.prems(2) by auto
  then show ?case
    using g1(1) t by simp
qed

lemma init_units_working:
  "init_units working_backend 0 [] = Inr (replicate 5 (still_unit 0 0))"
proof -
  have u: "Unit (int (fst (rand_values working_backend i) mod 800))
        (int (snd (rand_values working_backend i) mod 600))
        (load_unit working_backend i) (random_device working_backend i) = Inr (still_unit 0 0)" for i
    using Unit_still [of 0 0] by (simp add: working_backend_def)
  have step: "i < 5 \<Longrightarrow> init_units working_backend i us =
      init_units working_backend (Suc i) (us @ [still_unit 0 0])" for i us
    by (subst init_units.simps) (simp add: u)
  have stop: "init_units working_backend 5 us = Inr us" for us
    by (subst init_units.simps) simp
  have "init_units working_backend 0 [] = init_units working_backend (Suc 0) [still_unit 0 0]"
    using step [of 0 "[]"] by simp
  also have "\<dots> = init_units working_backend (Suc (Suc 0)) [still_unit 0 0, still_unit 0 0]"
    using step [of "Suc 0" "[still_unit 0 0]"] by simp
  also have "\<dots> = init_units working_backend (Suc (Suc (Suc 0)))
      [still_unit 0 0, still_unit 0 0, still_unit 0 0]"
    using step [of "Suc (Suc 0)" "[still_unit 0 0, still_unit 0 0]"] by simp
  also have "\<dots> = init_units working_backend (Suc (Suc (Suc (Suc 0))))
      [still_unit 0 0, still_unit 0 0, still_unit 0 0, still_unit 0 0]"
    using step [of "Suc (Suc (Suc 0))" "[still_unit 0 0, still_unit 0 0, still_unit 0 0]"] by simp
  also have "\<dots> = init_units working_backend 5
      [still_unit 0 0, still_unit 0 0, still_unit 0 0, still_unit 0 0, still_unit 0 0]"
    using step [of "Suc (Suc (Suc (Suc 0)))"
        "[still_unit 0 0, still_unit 0 0, still_unit 0 0, still_unit 0 0]"]
    by (simp add: eval_nat_numeral)
  also have "\<dots> = Inr [still_unit 0 0, still_unit 0 0, still_unit 0 0, still_unit 0 0, still_unit 0 0]"
    by (rule stop)
  finally show ?thesis
    by (simp add: eval_nat_numeral)
qed

lemma init_working: "init working_backend Game = Inr (True, started_game)"
  using init_units_working
  by (simp add: init_def Game_def started_game_def centre_def working_backend_def)

lemma init_failing: "init failing_backend Game = Inr (False, Game)"
  by (simp add: init_def failing_backend_def)

lemma reachable_started: "units_reachable started_game"
  by (simp add: units_reachable_def started_game_def reachable_still list_all_iff)

lemma frame_started_press:
  "frame started_game [SDL_MOUSEBUTTONDOWN 1 2, SDL_OTHEREVENT, SDL_MOUSEBUTTONDOWN 10 20, SDL_QUIT] =
     Inr (started_game\<lparr>running := False, target := \<lparr>point_x = 10, point_y = 20\<rparr>,
        units := replicate 5 ((still_unit 0 0)\<lparr>speed := 0\<rparr>)\<rparr>)"
proof -
  have u: "Unit_update (still_unit 0 0) t = Inr ((still_unit 0 0)\<lparr>speed := 0\<rparr>)" for t
    unfolding Unit_update_still
    by (simp add: keep_in_bounds_def update_rect_def still_unit_def float_to_int_def Let_def)
  have "update_units (replicate n (still_unit 0 0)) t =
      Inr (replicate n ((still_unit 0 0)\<lparr>speed := 0\<rparr>))" for n t
    by (induction n) (simp_all add: u)
  then show ?thesis
    by (simp add: frame_def Game_update_def started_game_def)
qed

section \<open>Lemmas about rounding to binary32\<close>

lemma round_to_even_le: "x \<le> real_of_int n \<Longrightarrow> round_to_even x \<le> n"
proof -
  assume le: "x \<le> real_of_int n"
  have f: "\<lfloor>x\<rfloor> \<le> n"
    using le by (simp add: floor_le_iff)
  show ?thesis
  proof (cases "x - real_of_int \<lfloor>x\<rfloor> < 1 / 2")
    case True
    then show ?thesis
      using f by (simp add: round_to_even_def Let_def)
  next
    case False
    then have "real_of_int \<lfloor>x\<rfloor> < x"
      by simp
    then have "real_of_int \<lfloor>x\<rfloor> < real_of_int n"
      using le by simp
    then have "\<lfloor>x\<rfloor> + 1 \<le> n"
      by simp
    then show ?thesis
      using f by (simp add: round_to_even_def Let_def)
  qed
qed

lemma round_to_even_ge: "real_of_int n \<le> x \<Longrightarrow> n \<le> round_to_even x"
proof -
  assume "real_of_int n \<le> x"
  then have "n \<le> \<lfloor>x\<rfloor>"
    by (simp add: le_floor_iff)
  then show ?thesis
    by (simp add: round_to_even_def Let_def)
qed

lemma powi_negative: "e \<le> 0 \<Longrightarrow> (2 :: real) powi (e - 23) = 1 / 2 ^ nat (23 - e)"
proof -
  assume "e \<le> 0"
  then have "\<not> 0 \<le> e - 23" and "- (e - 23) = 23 - e"
    by simp_all
  then have "(2 :: real) powi (e - 23) = inverse 2 ^ nat (23 - e)"
    by (simp only: power_int_def if_False)
  then show ?thesis
    by (simp add: power_one_over inverse_eq_divide)
qed

lemma scaled_bounds:
  "\<bar>x\<bar> \<le> 1 \<Longrightarrow>
   real_of_int (- (2 ^ p)) \<le> x * real_of_int (2 ^ p) \<and> x * real_of_int (2 ^ p) \<le> real_of_int (2 ^ p)"
proof -
  assume "\<bar>x\<bar> \<le> 1"
  then have x: "- 1 \<le> x" "x \<le> 1"
    by simp_all
  have n: "(0 :: real) \<le> real_of_int (2 ^ p)"
    by simp
  have "- 1 * real_of_int (2 ^ p) \<le> x * real_of_int (2 ^ p)"
    using x(1) n by (rule mult_right_mono)
  moreover have "x * real_of_int (2 ^ p) \<le> 1 * real_of_int (2 ^ p)"
    using x(2) n by (rule mult_right_mono)
  ultimately show ?thesis
    by simp
qed

lemma binary32_bounds: "\<bar>x\<bar> \<le> 1 \<Longrightarrow> - 1 \<le> binary32 x \<and> binary32 x \<le> 1"
proof (cases "x = 0")
  case True
  then show ?thesis
    by (simp add: binary32_def)
next
  case False
  assume x: "\<bar>x\<bar> \<le> 1"
  define e where "e = max (- 126) \<lfloor>log 2 \<bar>x\<bar>\<rfloor>"
  define p where "p = nat (23 - e)"
  define r where "r = round_to_even (x * real_of_int (2 ^ p))"
  have "0 < \<bar>x\<bar>"
    using False by simp
  then have "log 2 \<bar>x\<bar> \<le> 0"
    using x by (simp only: log_le_zero_cancel_iff one_less_numeral_iff semiring_norm)
  then have "\<lfloor>log 2 \<bar>x\<bar>\<rfloor> \<le> 0"
    by (simp add: floor_le_iff)
  then have e: "e \<le> 0"
    by (simp add: e_def)
  have ulp: "(2 :: real) powi (e - 23) = 1 / 2 ^ p"
    unfolding p_def using e by (rule powi_negative)
  have r1: "r \<le> 2 ^ p"
    unfolding r_def using scaled_bounds [OF x, of p] by (intro round_to_even_le) simp
  have r2: "- (2 ^ p) \<le> r"
    unfolding r_def using scaled_bounds [OF x, of p] by (intro round_to_even_ge) simp
  have "x / (1 / 2 ^ p) = x * real_of_int (2 ^ p)"
    by simp
  then have b: "binary32 x = real_of_int r / 2 ^ p"
    using False by (simp add: binary32_def Let_def e_def [symmetric] ulp r_def)
  have "real_of_int r \<le> real_of_int (2 ^ p)" and "real_of_int (- (2 ^ p)) \<le> real_of_int r"
    using r1 r2 by (simp_all only: of_int_le_iff)
  then have "real_of_int r \<le> 2 ^ p" and "- (2 ^ p) \<le> real_of_int r"
    by simp_all
  then show ?thesis
    unfolding b by (simp add: field_simps)
qed

lemma binary32_near_one:
  assumes "1 - 1 / 2 ^ 25 < x" and "x < 1"
  shows "binary32 x = 1"
proof -
  have pos: "0 < x" and half: "1 / 2 \<le> x"
    using assms(1) by simp_all
  have "\<lfloor>log 2 x\<rfloor> = - 1"
    using pos half assms(2) by (subst floor_log_eq_powr_iff) (simp_all add: powr_minus inverse_eq_divide)
  then have e: "max (- 126) \<lfloor>log 2 \<bar>x\<bar>\<rfloor> - 23 = - 24"
    using pos by simp
  have ulp: "(2 :: real) powi (- 24) = 1 / 2 ^ 24"
    using powi_negative [of "- 1"] by simp
  define y where "y = x * 2 ^ 24"
  have y1: "2 ^ 24 - 1 / 2 < y"
    using assms(1) by (simp add: y_def)
  have y2: "y < 2 ^ 24"
    using assms(2) by (simp add: y_def)
  have fl: "\<lfloor>y\<rfloor> = 2 ^ 24 - 1"
    using y1 y2 by (simp add: floor_eq_iff)
  have "1 / 2 < y - real_of_int \<lfloor>y\<rfloor>"
    using y1 by (simp add: fl)
  then have "round_to_even y = 2 ^ 24"
    by (simp add: round_to_even_def Let_def fl)
  then have "real_of_int (round_to_even (x / (1 / 2 ^ 24))) * (1 / 2 ^ 24) = 1"
    by (simp add: y_def)
  then show ?thesis
    unfolding binary32_def Let_def e ulp using pos by simp
qed

lemma exp_40: "(2 :: real) ^ 40 \<le> exp 40"
proof -
  have "(2 :: real) \<le> exp 1"
    using exp_ge_add_one_self [of "1 :: real"] by simp
  then have "(2 :: real) ^ 40 \<le> exp 1 ^ 40"
    by (intro power_mono) simp_all
  also have "exp (1 :: real) ^ 40 = exp 40"
    using exp_of_nat_mult [of 40 "1 :: real"] by simp
  finally show ?thesis .
qed

lemma tanh_20: "1 - 1 / 2 ^ 25 < tanh (20 :: real) \<and> tanh (20 :: real) < 1"
proof -
  define t where "t = exp (- 40 :: real)"
  have t: "0 < t"
    by (simp add: t_def)
  have "t = 1 / exp 40"
    by (simp add: t_def exp_minus inverse_eq_divide)
  also have "\<dots> \<le> 1 / 2 ^ 40"
    using exp_40 by (intro divide_left_mono) simp_all
  finally have small: "t \<le> 1 / 2 ^ 40" .
  have th: "tanh (20 :: real) = (1 - t) / (1 + t)"
    using tanh_real_altdef [of 20] by (simp add: t_def)
  have "1 - (1 - t) / (1 + t) = 2 * t / (1 + t)"
    using t by (simp add: field_simps)
  also have "\<dots> \<le> 2 * t"
    using t by (simp add: field_simps)
  also have "\<dots> < 1 / 2 ^ 25"
    using small by simp
  finally have "1 - tanh (20 :: real) < 1 / 2 ^ 25"
    by (simp add: th)
  then show ?thesis
    using tanh_real_lt_1 [of 20] by simp
qed

lemma float_tanh_20: "float_tanh 20 = 1"
  using tanh_20 by (simp add: float_tanh_def binary32_near_one)

lemma float_tanh_0: "float_tanh 0 = 0"
  by (simp add: float_tanh_def binary32_def)

lemma float_tanh_bounds: "- 1 \<le> float_tanh x \<and> float_tanh x \<le> 1"
proof -
  have "\<bar>tanh x\<bar> \<le> 1"
    using tanh_real_lt_1 [of x] tanh_real_gt_neg1 [of x] by simp
  then show ?thesis
    unfolding float_tanh_def by (rule binary32_bounds)
qed

section \<open>Lemmas about the forward pass with the rounded value\<close>

lemma activate32_eq:
  "length inputs \<le> length (weights n) \<Longrightarrow> activate32 n inputs = Inr (neuron_value32 n inputs)"
  using activate_loop_ok [of inputs "weights n" 0 "bias n"]
  by (simp add: activate32_def neuron_value32_def)

lemma layer_outputs32_eq:
  "\<forall>n \<in> set layer. length inputs \<le> length (weights n) \<Longrightarrow>
   layer_outputs32 layer inputs outputs = Inr (outputs @ map (\<lambda>n. neuron_value32 n inputs) layer)"
  by (induction layer arbitrary: outputs) (simp_all add: activate32_eq)

lemma feed_layers32_eq:
  "dims_ok (length inputs) ls \<Longrightarrow> feed_layers32 ls inputs = Inr (forward32 ls inputs)"
proof (induction ls arbitrary: inputs)
  case Nil
  show ?case by simp
next
  case (Cons layer ls)
  have lo: "layer_outputs32 layer inputs [] = Inr (map (\<lambda>n. neuron_value32 n inputs) layer)"
    using Cons.prems layer_outputs32_eq [of layer inputs "[]"] by simp
  have "dims_ok (length (map (\<lambda>n. neuron_value32 n inputs) layer)) ls"
    using Cons.prems by simp
  then have "feed_layers32 ls (map (\<lambda>n. neuron_value32 n inputs) layer) =
      Inr (forward32 ls (map (\<lambda>n. neuron_value32 n inputs) layer))"
    by (rule Cons.IH)
  then show ?case
    by (simp add: lo)
qed

lemma length_forward32:
  "ls \<noteq> [] \<Longrightarrow> length (forward32 ls inputs) = length (last ls)"
proof (induction ls arbitrary: inputs)
  case Nil
  then show ?case by simp
next
  case (Cons layer ls)
  show ?case
  proof (cases "ls = []")
    case True
    then show ?thesis by simp
  next
    case False
    then show ?thesis using Cons.IH by simp
  qed
qed

lemma forward32_bounds:
  "ls \<noteq> [] \<Longrightarrow> v \<in> set (forward32 ls inputs) \<Longrightarrow> - 1 \<le> v \<and> v \<le> 1"
proof (induction ls arbitrary: inputs)
  case Nil
  then show ?case by simp
next
  case (Cons layer ls)
  show ?case
  proof (cases "ls = []")
    case True
    then show ?thesis
      using Cons.prems float_tanh_bounds by (auto simp add: neuron_value32_def)
  next
    case False
    then show ?thesis
      using Cons.IH Cons.prems by simp
  qed
qed

lemma NeuralNetwork_saturated: "NeuralNetwork [1, 1] half_rd = Inr saturated_net"
proof -
  have "NeuralNetwork [1, 1] half_rd = Inr \<lparr>layers = fresh_layers [1, 1] half_rd 0\<rparr>"
    by (rule NeuralNetwork_eq) simp
  then show ?thesis
    by (simp add: saturated_net_def fresh_layers_def fresh_layer_def fresh_neuron_def
        half_rd_def half_gen_def uniform_real_distribution_def)
qed

lemma feedForward32_saturated: "feedForward32 saturated_net [40] = (Inr [1], saturated_net)"
proof -
  have "dims_ok (length [40 :: real]) (layers saturated_net)"
    by (simp add: saturated_net_def)
  then have "feed_layers32 (layers saturated_net) [40] = Inr (forward32 (layers saturated_net) [40])"
    by (rule feed_layers32_eq)
  then show ?thesis
    by (simp add: feedForward32_def saturated_net_def neuron_value32_def float_tanh_20)
qed

section \<open>Lemmas about the outputs of the engine\<close>











section \<open>The claims\<close>

subsection \<open>C1: how weights and biases are initialised\<close>




subsection \<open>C2: shape of a constructed network\<close>

text \<open>
  C2.  For every topology of at least two positive integers the constructor
  returns a network with one layer per adjacent pair: \<open>length topology - 1\<close>
  layers, layer \<open>i\<close> holding exactly \<open>topology ! (i + 1)\<close> neurons, each with a
  weight vector of length exactly \<open>topology ! i\<close>.
\<close>

theorem NeuralNetwork_shape:
  assumes "2 \<le> length topology" and "\<forall>t \<in> set topology. 0 < t"
  shows "\<exists>net. NeuralNetwork topology rd = Inr net \<and>
           length (layers net) = length topology - 1 \<and>
           (\<forall>i < length topology - 1.
              int (length (layers net ! i)) = topology ! (i + 1) \<and>
              (\<forall>n \<in> set (layers net ! i). int (length (weights n)) = topology ! i))"
proof -
  have nonneg: "\<forall>t \<in> set topology. 0 \<le> t"
    using assms(2) by auto
  have net: "NeuralNetwork topology rd = Inr \<lparr>layers = fresh_layers topology rd 0\<rparr>"
    using nonneg by (rule NeuralNetwork_eq)
  have "int (length (fresh_layers topology rd 0 ! i)) = topology ! (i + 1) \<and>
        (\<forall>n \<in> set (fresh_layers topology rd 0 ! i). int (length (weights n)) = topology ! i)"
    if i: "i < length topology - 1" for i
  proof -
    have "0 < topology ! (i + 1)" and "0 < topology ! i"
      using assms(2) i by simp_all
    then show ?thesis
      using i by (simp add: nth_fresh_layers length_fresh_layer weights_fresh_layer)
  qed
  then show ?thesis
    by (simp add: net length_fresh_layers)
qed

text \<open>
  The topology of every unit's brain, with generators that return 0.
\<close>

theorem NeuralNetwork_shape_witness:
  "2 \<le> length [4, 6, 2 :: int] \<and> 0 < (4 :: int) \<and> 0 < (6 :: int) \<and> 0 < (2 :: int) \<and>
   (\<exists>net. NeuralNetwork [4, 6, 2] zero_rd = Inr net \<and> length (layers net) = 2 \<and>
      map (\<lambda>n. int (length (weights n))) (layers net ! 0) = replicate 6 4 \<and>
      map (\<lambda>n. int (length (weights n))) (layers net ! 1) = replicate 2 6)"
proof -
  have h1: "2 \<le> length [4, 6, 2 :: int]" by simp
  have h2: "\<forall>t \<in> set [4, 6, 2 :: int]. 0 < t" by simp
  obtain net where net: "NeuralNetwork [4, 6, 2] zero_rd = Inr net"
      "length (layers net) = length [4, 6, 2 :: int] - 1"
      "\<forall>i < length [4, 6, 2 :: int] - 1.
          int (length (layers net ! i)) = [4, 6, 2] ! (i + 1) \<and>
          (\<forall>n \<in> set (layers net ! i). int (length (weights n)) = [4, 6, 2] ! i)"
    using NeuralNetwork_shape [OF h1 h2, of zero_rd] by blast
  have l0: "length (layers net ! 0) = 6 \<and>
            (\<forall>n \<in> set (layers net ! 0). int (length (weights n)) = 4)"
    using net(3) [rule_format, of 0] by simp
  have l1: "length (layers net ! 1) = 2 \<and>
            (\<forall>n \<in> set (layers net ! 1). int (length (weights n)) = 6)"
    using net(3) [rule_format, of 1] by simp
  have m0: "map (\<lambda>n. int (length (weights n))) (layers net ! 0) = replicate 6 4"
    using l0 map_constant [of "layers net ! 0" "\<lambda>n. int (length (weights n))" 4] by simp
  have m1: "map (\<lambda>n. int (length (weights n))) (layers net ! 1) = replicate 2 6"
    using l1 map_constant [of "layers net ! 1" "\<lambda>n. int (length (weights n))" 6] by simp
  show ?thesis
    using h1 net(1,2) m0 m1 by simp
qed

subsection \<open>C3: length and range of the result of the forward pass\<close>

text \<open>
  C3, as stated, says that every returned value lies strictly between -1 and 1.
  It fails once the value of \<^verbatim>\<open>tanh\<close> is rounded to \<^verbatim>\<open>float\<close>: the network of
  topology 1, 1 whose weight is \<open>1/2\<close>, fed the input 40, has the sum 20, and the
  binary32 number nearest to \<open>tanh 20\<close> is 1.
\<close>

theorem feedForward_reaches_one_counterexample:
  "NeuralNetwork [1, 1] half_rd = Inr saturated_net \<and>
   int (length [40 :: real]) = [1, 1] ! 0 \<and>
   feedForward32 saturated_net [40] = (Inr [1], saturated_net) \<and>
   \<not> (1 :: real) < 1"
  using NeuralNetwork_saturated feedForward32_saturated by simp

text \<open>
  C3, amended.  For every network constructed from a topology of at least two
  positive integers and every input whose length is the first element of the
  topology, \<open>feedForward\<close> reads no weight out of bounds and returns a vector
  whose length is the last element of the topology, and every value of it lies in
  the closed interval \<open>[-1, 1]\<close>.  This holds with the value of \<^verbatim>\<open>tanh\<close> rounded
  to binary32 (\<open>feedForward32\<close>) and with the exact one (\<open>feedForward\<close>).
\<close>

theorem feedForward_length_and_closed_range:
  assumes "2 \<le> length topology" and "\<forall>t \<in> set topology. 0 < t"
    and "int (length inputs) = topology ! 0"
  shows "\<exists>net outputs outputs32.
           NeuralNetwork topology rd = Inr net \<and>
           feedForward32 net inputs = (Inr outputs32, net) \<and>
           int (length outputs32) = last topology \<and>
           (\<forall>v \<in> set outputs32. - 1 \<le> v \<and> v \<le> 1) \<and>
           feedForward net inputs = (Inr outputs, net) \<and>
           int (length outputs) = last topology \<and>
           (\<forall>v \<in> set outputs. - 1 \<le> v \<and> v \<le> 1)"
proof -
  let ?ls = "fresh_layers topology rd 0"
  have nonneg: "\<forall>t \<in> set topology. 0 \<le> t"
    using assms(2) by auto
  have net: "NeuralNetwork topology rd = Inr \<lparr>layers = ?ls\<rparr>"
    using nonneg by (rule NeuralNetwork_eq)
  have ne: "?ls \<noteq> []"
    using assms(1) by (simp add: fresh_layers_def)
  have "dims_ok (nat (topology ! 0)) ?ls"
    by (rule dims_ok_fresh_layers)
  then have d: "dims_ok (length inputs) ?ls"
    using assms(3) [symmetric] by simp
  have ff32: "feed_layers32 ?ls inputs = Inr (forward32 ?ls inputs)"
    using d by (rule feed_layers32_eq)
  have ff: "feed_layers ?ls inputs = Inr (forward ?ls inputs)"
    using d by (rule feed_layers_eq)
  have "last topology \<in> set topology"
    using assms(1) by (intro last_in_set) auto
  then have lp: "0 < last topology"
    using assms(2) by blast
  have len32: "int (length (forward32 ?ls inputs)) = last topology"
    using assms(1) ne lp by (simp add: length_forward32 last_fresh_layers length_fresh_layer)
  have len: "int (length (forward ?ls inputs)) = last topology"
    using assms(1) ne lp by (simp add: length_forward last_fresh_layers length_fresh_layer)
  have b32: "\<forall>v \<in> set (forward32 ?ls inputs). - 1 \<le> v \<and> v \<le> 1"
    using forward32_bounds [OF ne] by blast
  have "\<forall>v \<in> set (forward ?ls inputs). - 1 < v \<and> v < 1"
    using forward_bounds [OF ne] by blast
  then have b: "\<forall>v \<in> set (forward ?ls inputs). - 1 \<le> v \<and> v \<le> 1"
    by (simp add: less_imp_le)
  show ?thesis
    using len32 len b32 b by (simp add: net feedForward_def feedForward32_def ff ff32)
qed

text \<open>
  The network and the input of the counterexample.
\<close>

theorem feedForward_length_and_closed_range_witness:
  "2 \<le> length [1, 1 :: int] \<and> 0 < (1 :: int) \<and> int (length [40 :: real]) = [1, 1] ! 0 \<and>
   (\<exists>outputs. NeuralNetwork [1, 1] half_rd = Inr saturated_net \<and>
      feedForward32 saturated_net [40] = (Inr [1], saturated_net) \<and>
      int (length [1 :: real]) = last [1, 1] \<and>
      feedForward saturated_net [40] = (Inr outputs, saturated_net) \<and>
      int (length outputs) = last [1, 1] \<and> list_all (\<lambda>v. - 1 \<le> v \<and> v \<le> 1) outputs)"
proof -
  have h1: "2 \<le> length [1, 1 :: int]" by simp
  have h2: "\<forall>t \<in> set [1, 1 :: int]. 0 < t" by simp
  have h3: "int (length [40 :: real]) = [1, 1] ! 0" by simp
  obtain net outputs outputs32 where r: "NeuralNetwork [1, 1] half_rd = Inr net"
      "feedForward32 net [40] = (Inr outputs32, net)"
      "feedForward net [40] = (Inr outputs, net)"
      "int (length outputs) = last [1, 1]"
      "\<forall>v \<in> set outputs. - 1 \<le> v \<and> v \<le> 1"
    using feedForward_length_and_closed_range [OF h1 h2 h3, of half_rd] by blast
  have n: "net = saturated_net"
    using r(1) NeuralNetwork_saturated by simp
  have "list_all (\<lambda>v. - 1 \<le> v \<and> v \<le> 1) outputs"
    using r(5) by (simp add: list_all_iff)
  then show ?thesis
    using r(3,4) n NeuralNetwork_saturated feedForward32_saturated by auto
qed

subsection \<open>C4: the forward pass is a function of the weights and the input\<close>

text \<open>
  C4.  A call of \<open>feedForward\<close> leaves the network as it was, so a second
  call with the same input, made on the network the first call leaves behind,
  gives the identical outcome.  Where the dimensions fit, that outcome is the
  vector \<open>forward\<close> computes, which depends on the layers and the input alone.
  (Where the input is longer than the weight vectors of the first layer the
  outcome is \<open>OutOfBounds\<close>, the mark of the unchecked read, both times.)
\<close>

theorem feedForward_deterministic:
  "snd (feedForward net inputs) = net \<and>
   feedForward (snd (feedForward net inputs)) inputs = feedForward net inputs \<and>
   (dims_ok (length inputs) (layers net) \<longrightarrow>
      fst (feedForward net inputs) = Inr (forward (layers net) inputs))"
  by (simp add: feedForward_def feed_layers_eq)

text \<open>
  The brain with all weights 0, fed \<open>[1, 2, 3, 4]\<close> twice.
\<close>

theorem feedForward_deterministic_witness:
  "dims_ok (length [1, 2, 3, 4 :: real]) (layers zero_brain) \<and>
   feedForward zero_brain [1, 2, 3, 4] = (Inr [0, 0], zero_brain) \<and>
   feedForward (snd (feedForward zero_brain [1, 2, 3, 4])) [1, 2, 3, 4] = (Inr [0, 0], zero_brain)"
proof -
  have d: "dims_ok (length [1, 2, 3, 4 :: real]) (layers zero_brain)"
    by (simp add: zero_brain_def)
  have "fst (feedForward zero_brain [1, 2, 3, 4]) = Inr [0, 0]"
    using feedForward_deterministic [of zero_brain "[1, 2, 3, 4]"] d
    by (simp only: forward_zero_brain)
  then show ?thesis
    using feedForward_deterministic [of zero_brain "[1, 2, 3, 4]"] d
    by (simp add: prod_eq_iff)
qed

subsection \<open>C5: the position is clamped to the playfield\<close>

text \<open>
  C5.  For every reachable unit and every target, \<open>Unit_update\<close> succeeds and
  leaves \<open>0 \<le> x \<le> 760\<close> and \<open>0 \<le> y \<le> 560\<close>.  With \<open>u1\<close> the unit right
  after the position has been integrated (\<open>steer\<close>): a raw coordinate below 0
  becomes exactly 0, a raw \<open>x\<close> above 760 becomes exactly 760, a raw \<open>y\<close> above 560
  becomes exactly 560, and a raw coordinate inside the range is kept.  The
  comparisons and the constants 0, 760 and 560 involve no rounding.
\<close>

theorem Unit_update_clamps_position:
  assumes "reachable_unit u"
  shows "\<exists>u1 u'. steer u t = Inr u1 \<and> Unit_update u t = Inr u' \<and>
           0 \<le> unit_x u' \<and> unit_x u' \<le> 760 \<and> 0 \<le> unit_y u' \<and> unit_y u' \<le> 560 \<and>
           (unit_x u1 < 0 \<longrightarrow> unit_x u' = 0) \<and> (760 < unit_x u1 \<longrightarrow> unit_x u' = 760) \<and>
           (unit_y u1 < 0 \<longrightarrow> unit_y u' = 0) \<and> (560 < unit_y u1 \<longrightarrow> unit_y u' = 560) \<and>
           (0 \<le> unit_x u1 \<and> unit_x u1 \<le> 760 \<longrightarrow> unit_x u' = unit_x u1) \<and>
           (0 \<le> unit_y u1 \<and> unit_y u1 \<le> 560 \<longrightarrow> unit_y u' = unit_y u1)"
proof -
  have inv: "unit_inv u"
    using assms by (rule reachable_unit_inv)
  obtain u1 where u1: "steer u t = Inr u1"
    using steer_total [OF inv] by blast
  have r: "rect u1 = rect u"
    using steer_keeps [OF u1] by simp
  have w: "rect_w (rect u1) = 40" and h: "rect_h (rect u1) = 40"
    using inv r by (simp_all add: unit_inv_def)
  have up: "Unit_update u t = Inr (update_rect (keep_in_bounds u1))"
    by (simp add: Unit_update_def u1)
  have x: "unit_x (update_rect (keep_in_bounds u1)) =
      (if unit_x u1 < 0 then 0 else if 760 < unit_x u1 then 760 else unit_x u1)"
    using keep_in_bounds_x [OF w] by (simp add: update_rect_xy)
  have y: "unit_y (update_rect (keep_in_bounds u1)) =
      (if unit_y u1 < 0 then 0 else if 560 < unit_y u1 then 560 else unit_y u1)"
    using keep_in_bounds_y [OF h] by (simp add: update_rect_xy)
  show ?thesis
    using u1 up x y by auto
qed

text \<open>
  Three units that do not move (all weights 0): one placed beyond the upper
  bounds, one below the lower bounds, one inside.
\<close>

theorem Unit_update_clamps_position_witness:
  "reachable_unit (still_unit 790 590) \<and> reachable_unit (still_unit (- 10) (- 10)) \<and>
   reachable_unit (still_unit 100 100) \<and>
   (\<exists>u1 u'. steer (still_unit 790 590) centre = Inr u1 \<and> unit_x u1 = 790 \<and> unit_y u1 = 590 \<and>
      Unit_update (still_unit 790 590) centre = Inr u' \<and> unit_x u' = 760 \<and> unit_y u' = 560) \<and>
   (\<exists>u1 u'. steer (still_unit (- 10) (- 10)) centre = Inr u1 \<and> unit_x u1 = - 10 \<and> unit_y u1 = - 10 \<and>
      Unit_update (still_unit (- 10) (- 10)) centre = Inr u' \<and> unit_x u' = 0 \<and> unit_y u' = 0) \<and>
   (\<exists>u1 u'. steer (still_unit 100 100) centre = Inr u1 \<and> unit_x u1 = 100 \<and> unit_y u1 = 100 \<and>
      Unit_update (still_unit 100 100) centre = Inr u' \<and> unit_x u' = 100 \<and> unit_y u' = 100)"
proof -
  have a: "\<exists>u1 u'. steer (still_unit 790 590) centre = Inr u1 \<and> unit_x u1 = 790 \<and> unit_y u1 = 590 \<and>
      Unit_update (still_unit 790 590) centre = Inr u' \<and> unit_x u' = 760 \<and> unit_y u' = 560"
  proof -
    obtain u1 u' where s: "steer (still_unit 790 590) centre = Inr u1"
      and u: "Unit_update (still_unit 790 590) centre = Inr u'"
      and c: "760 < unit_x u1 \<longrightarrow> unit_x u' = 760" "560 < unit_y u1 \<longrightarrow> unit_y u' = 560"
      using Unit_update_clamps_position [OF reachable_still, of 790 590 centre] by blast
    have "unit_x u1 = 790 \<and> unit_y u1 = 590"
      using still_after_steer [OF s] by simp
    then show ?thesis
      using s u c by simp
  qed
  have b: "\<exists>u1 u'. steer (still_unit (- 10) (- 10)) centre = Inr u1 \<and> unit_x u1 = - 10 \<and> unit_y u1 = - 10 \<and>
      Unit_update (still_unit (- 10) (- 10)) centre = Inr u' \<and> unit_x u' = 0 \<and> unit_y u' = 0"
  proof -
    obtain u1 u' where s: "steer (still_unit (- 10) (- 10)) centre = Inr u1"
      and u: "Unit_update (still_unit (- 10) (- 10)) centre = Inr u'"
      and c: "unit_x u1 < 0 \<longrightarrow> unit_x u' = 0" "unit_y u1 < 0 \<longrightarrow> unit_y u' = 0"
      using Unit_update_clamps_position [OF reachable_still, of "- 10" "- 10" centre] by blast
    have "unit_x u1 = - 10 \<and> unit_y u1 = - 10"
      using still_after_steer [OF s] by simp
    then show ?thesis
      using s u c by simp
  qed
  have c: "\<exists>u1 u'. steer (still_unit 100 100) centre = Inr u1 \<and> unit_x u1 = 100 \<and> unit_y u1 = 100 \<and>
      Unit_update (still_unit 100 100) centre = Inr u' \<and> unit_x u' = 100 \<and> unit_y u' = 100"
  proof -
    obtain u1 u' where s: "steer (still_unit 100 100) centre = Inr u1"
      and u: "Unit_update (still_unit 100 100) centre = Inr u'"
      and c: "0 \<le> unit_x u1 \<and> unit_x u1 \<le> 760 \<longrightarrow> unit_x u' = unit_x u1"
        "0 \<le> unit_y u1 \<and> unit_y u1 \<le> 560 \<longrightarrow> unit_y u' = unit_y u1"
      using Unit_update_clamps_position [OF reachable_still, of 100 100 centre] by blast
    have "unit_x u1 = 100 \<and> unit_y u1 = 100"
      using still_after_steer [OF s] by simp
    then show ?thesis
      using s u c by simp
  qed
  show ?thesis
    using a b c reachable_still by simp
qed

subsection \<open>C6: what the network is fed and how its outputs are used\<close>

text \<open>
  C6.  For every reachable unit and target \<open>(tx, ty)\<close> the vector handed to the
  network is exactly \<open>[distance / 800, angle / \<pi>, speed / 5, 0]\<close> with
  \<open>distance = sqrt ((tx - x)\<^sup>2 + (ty - y)\<^sup>2)\<close> and \<open>angle = atan2f (ty - y) (tx - x)\<close>;
  the network answers with exactly two values \<open>o0\<close>, \<open>o1\<close>; the new speed is
  \<open>o0 * 5\<close>, the direction \<open>o1 * \<pi>\<close>, and the position is advanced by
  \<open>cos direction * speed\<close> and \<open>sin direction * speed\<close> with the new speed, before
  the bounds and the box are updated.
\<close>

theorem Unit_update_dataflow:
  assumes "reachable_unit u"
  shows "\<exists>o0 o1.
           unit_inputs u \<lparr>point_x = tx, point_y = ty\<rparr> =
             [sqrt ((real_of_int tx - unit_x u)\<^sup>2 + (real_of_int ty - unit_y u)\<^sup>2) / 800,
              atan2f (real_of_int ty - unit_y u) (real_of_int tx - unit_x u) / pi,
              speed u / 5,
              0] \<and>
           feedForward (brain u)
             [sqrt ((real_of_int tx - unit_x u)\<^sup>2 + (real_of_int ty - unit_y u)\<^sup>2) / 800,
              atan2f (real_of_int ty - unit_y u) (real_of_int tx - unit_x u) / pi,
              speed u / 5,
              0] = (Inr [o0, o1], brain u) \<and>
           steer u \<lparr>point_x = tx, point_y = ty\<rparr> =
             Inr (u\<lparr>speed := o0 * 5,
                    unit_x := unit_x u + cos (o1 * pi) * (o0 * 5),
                    unit_y := unit_y u + sin (o1 * pi) * (o0 * 5)\<rparr>) \<and>
           Unit_update u \<lparr>point_x = tx, point_y = ty\<rparr> =
             Inr (update_rect (keep_in_bounds
               (u\<lparr>speed := o0 * 5,
                  unit_x := unit_x u + cos (o1 * pi) * (o0 * 5),
                  unit_y := unit_y u + sin (o1 * pi) * (o0 * 5)\<rparr>)))"
proof -
  let ?t = "\<lparr>point_x = tx, point_y = ty\<rparr>"
  have inv: "unit_inv u"
    using assms by (rule reachable_unit_inv)
  have inp: "unit_inputs u ?t =
      [sqrt ((real_of_int tx - unit_x u)\<^sup>2 + (real_of_int ty - unit_y u)\<^sup>2) / 800,
       atan2f (real_of_int ty - unit_y u) (real_of_int tx - unit_x u) / pi,
       speed u / 5,
       0]"
    by (simp add: unit_inputs_def Let_def power2_eq_square)
  obtain o0 o1 where outs: "unit_outputs u ?t = [o0, o1]"
    using length_unit_outputs [OF inv, of ?t] length_2_cases by blast
  have ff: "feedForward (brain u) (unit_inputs u ?t) = (Inr [o0, o1], brain u)"
    using feedForward_unit [OF inv, of ?t] by (simp add: outs)
  have st: "steer u ?t =
      Inr (u\<lparr>speed := o0 * 5,
             unit_x := unit_x u + cos (o1 * pi) * (o0 * 5),
             unit_y := unit_y u + sin (o1 * pi) * (o0 * 5)\<rparr>)"
    using steer_eq [OF inv, of ?t] by (simp add: outs)
  have up: "Unit_update u ?t =
      Inr (update_rect (keep_in_bounds
        (u\<lparr>speed := o0 * 5,
           unit_x := unit_x u + cos (o1 * pi) * (o0 * 5),
           unit_y := unit_y u + sin (o1 * pi) * (o0 * 5)\<rparr>)))"
    by (simp add: Unit_update_def st)
  show ?thesis
    using inp ff st up by (intro exI [of _ o0] exI [of _ o1]) (simp only: simp_thms)
qed

text \<open>
  The unit placed at (790, 590) and the target (400, 300).
\<close>

theorem Unit_update_dataflow_witness:
  "reachable_unit (still_unit 790 590) \<and>
   (\<exists>o0 o1.
      unit_inputs (still_unit 790 590) \<lparr>point_x = 400, point_y = 300\<rparr> =
        [sqrt ((real_of_int 400 - unit_x (still_unit 790 590))\<^sup>2 +
               (real_of_int 300 - unit_y (still_unit 790 590))\<^sup>2) / 800,
         atan2f (real_of_int 300 - unit_y (still_unit 790 590))
                (real_of_int 400 - unit_x (still_unit 790 590)) / pi,
         speed (still_unit 790 590) / 5,
         0] \<and>
      feedForward (brain (still_unit 790 590))
        [sqrt ((real_of_int 400 - unit_x (still_unit 790 590))\<^sup>2 +
               (real_of_int 300 - unit_y (still_unit 790 590))\<^sup>2) / 800,
         atan2f (real_of_int 300 - unit_y (still_unit 790 590))
                (real_of_int 400 - unit_x (still_unit 790 590)) / pi,
         speed (still_unit 790 590) / 5,
         0] = (Inr [o0, o1], brain (still_unit 790 590)) \<and>
      steer (still_unit 790 590) \<lparr>point_x = 400, point_y = 300\<rparr> =
        Inr ((still_unit 790 590)\<lparr>speed := o0 * 5,
               unit_x := unit_x (still_unit 790 590) + cos (o1 * pi) * (o0 * 5),
               unit_y := unit_y (still_unit 790 590) + sin (o1 * pi) * (o0 * 5)\<rparr>) \<and>
      Unit_update (still_unit 790 590) \<lparr>point_x = 400, point_y = 300\<rparr> =
        Inr (update_rect (keep_in_bounds
          ((still_unit 790 590)\<lparr>speed := o0 * 5,
             unit_x := unit_x (still_unit 790 590) + cos (o1 * pi) * (o0 * 5),
             unit_y := unit_y (still_unit 790 590) + sin (o1 * pi) * (o0 * 5)\<rparr>))))"
  by (intro conjI reachable_still Unit_update_dataflow [OF reachable_still])

subsection \<open>C7: inputs whose length differs from the number of weights\<close>

text \<open>
  C7, as stated, says that \<open>activate\<close> fails fast on an input whose length
  differs from the number of weights.  It does not: a neuron with two weights that
  is given one input returns a value, computed from the first weight alone.
\<close>

theorem activate_partial_sum_counterexample:
  "length [1 / 2 :: real] \<noteq> length (weights \<lparr>weights = [1, 1], bias = 0\<rparr>) \<and>
   activate \<lparr>weights = [1, 1], bias = 0\<rparr> [1 / 2] = Inr (tanh (1 / 2))"
  by (simp add: activate_eq neuron_value_def)

text \<open>
  C7, amended.  \<open>activate\<close> checks no length.  On an input no longer than the
  weight vector it returns \<open>tanh (bias + \<Sum>k < length inputs. inputs[k] * weights[k])\<close>,
  ignoring the weights beyond the input's length; on a longer input it reads
  \<open>weights\<close> beyond its end, which is undefined behaviour and not a detected fault.
\<close>

theorem activate_no_length_check:
  "(length inputs \<le> length (weights n) \<longrightarrow>
      activate n inputs =
        Inr (tanh (bias n + (\<Sum>k = 0..<length inputs. inputs ! k * weights n ! k)))) \<and>
   (length (weights n) < length inputs \<longrightarrow> activate n inputs = Inl OutOfBounds)"
  using activate_eq [of inputs n] activate_fault [of n inputs]
  by (simp add: neuron_value_def)

text \<open>
  A neuron with two weights, given one input and given three.
\<close>

theorem activate_no_length_check_witness:
  "activate \<lparr>weights = [1, 1], bias = 0\<rparr> [1 / 2] = Inr (tanh (1 / 2)) \<and>
   activate \<lparr>weights = [1, 1], bias = 0\<rparr> [1, 1, 1] = Inl OutOfBounds"
  using activate_no_length_check [of "[1 / 2]" "\<lparr>weights = [1, 1], bias = 0\<rparr>"]
    activate_no_length_check [of "[1, 1, 1]" "\<lparr>weights = [1, 1], bias = 0\<rparr>"]
  by simp

subsection \<open>C8: a button press sets the target that the next update sees\<close>

text \<open>
  C8.  In a game whose units are reachable, when the event queue holds a button
  press at \<open>(px, py)\<close> and no press after it (whatever comes before it),
  \<open>handleEvents\<close> leaves the target at exactly \<open>(px, py)\<close>; the update that
  follows in the same pass succeeds, updates every unit with exactly that target,
  and leaves the target as it is.  \<open>Game_update\<close> never changes the target.
\<close>

theorem press_sets_target_for_next_update:
  assumes "units_reachable g" and "\<forall>x y. SDL_MOUSEBUTTONDOWN x y \<notin> set later"
  shows "target (handleEvents g (earlier @ SDL_MOUSEBUTTONDOWN px py # later)) =
           \<lparr>point_x = px, point_y = py\<rparr> \<and>
         (\<exists>g'. frame g (earlier @ SDL_MOUSEBUTTONDOWN px py # later) = Inr g' \<and>
            target g' = \<lparr>point_x = px, point_y = py\<rparr> \<and>
            list_all2 (\<lambda>u u'. Unit_update u \<lparr>point_x = px, point_y = py\<rparr> = Inr u')
              (units g) (units g')) \<and>
         (\<forall>g0 g1. Game_update g0 = Inr g1 \<longrightarrow> target g1 = target g0)"
proof -
  let ?evs = "earlier @ SDL_MOUSEBUTTONDOWN px py # later"
  let ?p = "\<lparr>point_x = px, point_y = py\<rparr>"
  have "presses later = []"
    using assms(2) by (simp add: presses_empty_iff)
  then have pr: "presses ?evs = presses earlier @ [?p]"
    by (simp add: presses_append)
  have t: "target (handleEvents g ?evs) = ?p"
    by (simp add: handleEvents_target pr)
  have r: "units_reachable (handleEvents g ?evs)"
    using assms(1) by (simp add: units_reachable_def handleEvents_units)
  obtain g' where g': "Game_update (handleEvents g ?evs) = Inr g'"
    using Game_update_total [OF r] by blast
  have k: "target g' = ?p \<and> list_all2 (\<lambda>u u'. Unit_update u ?p = Inr u') (units g) (units g')"
    using Game_update_keeps [OF g'] by (simp add: t handleEvents_units)
  have "\<forall>g0 g1. Game_update g0 = Inr g1 \<longrightarrow> target g1 = target g0"
    using Game_update_keeps by blast
  then show ?thesis
    using t g' k by (simp add: frame_def)
qed

text \<open>
  The game after \<open>init\<close>, with two presses, another event and a close event
  in one queue.
\<close>

theorem press_sets_target_for_next_update_witness:
  "units_reachable started_game \<and>
   target (handleEvents started_game
      [SDL_MOUSEBUTTONDOWN 1 2, SDL_OTHEREVENT, SDL_MOUSEBUTTONDOWN 10 20, SDL_QUIT]) =
     \<lparr>point_x = 10, point_y = 20\<rparr> \<and>
   (\<exists>g'. frame started_game
        [SDL_MOUSEBUTTONDOWN 1 2, SDL_OTHEREVENT, SDL_MOUSEBUTTONDOWN 10 20, SDL_QUIT] = Inr g' \<and>
      target g' = \<lparr>point_x = 10, point_y = 20\<rparr> \<and>
      units g' = replicate 5 ((still_unit 0 0)\<lparr>speed := 0\<rparr>) \<and>
      list_all2 (\<lambda>u u'. Unit_update u \<lparr>point_x = 10, point_y = 20\<rparr> = Inr u')
        (units started_game) (units g'))"
proof -
  have l: "\<forall>x y. SDL_MOUSEBUTTONDOWN x y \<notin> set [SDL_QUIT]"
    by simp
  note th = press_sets_target_for_next_update [OF reachable_started l,
      of "[SDL_MOUSEBUTTONDOWN 1 2, SDL_OTHEREVENT]" 10 20]
  show ?thesis
    using th reachable_started frame_started_press by simp
qed

subsection \<open>C9: the exit code\<close>

text \<open>
  C9.  \<open>main\<close> returns -1 when \<^verbatim>\<open>SDL_Init\<close>, the window or the renderer fails;
  otherwise it returns 0 as soon as some pass of the loop polls a close event, and
  it never returns when no pass does.  There is no other outcome.
\<close>

theorem main_exit_code:
  "(sdl_init be < 0 \<or> create_window be = None \<or> create_renderer be = None \<longrightarrow>
      main be queue = Some (Inr (- 1))) \<and>
   (\<not> (sdl_init be < 0 \<or> create_window be = None \<or> create_renderer be = None) \<and>
    (\<exists>m. SDL_QUIT \<in> set (queue m)) \<longrightarrow>
      main be queue = Some (Inr 0)) \<and>
   (\<not> (sdl_init be < 0 \<or> create_window be = None \<or> create_renderer be = None) \<and>
    (\<forall>m. SDL_QUIT \<notin> set (queue m)) \<longrightarrow>
      main be queue = None)"
proof (cases "setup_fails be")
  case True
  obtain g' where "init be Game = Inr (False, g')"
    using init_fails [OF True] by blast
  then have "main be queue = Some (Inr (- 1))"
    by (simp add: main_def)
  then show ?thesis
    using True by (simp add: setup_fails_def)
next
  case False
  obtain g where g: "init be Game = Inr (True, g)" "running g" "units_reachable g"
    using init_ok [OF False units_reachable_Game] by blast
  have m: "main be queue =
      (case game_loop g queue 0 of None \<Rightarrow> None | Some (Inl e) \<Rightarrow> Some (Inl e)
       | Some (Inr g') \<Rightarrow> Some (Inr 0))"
    by (simp add: main_def g(1))
  have quit: "main be queue = Some (Inr 0)" if q: "SDL_QUIT \<in> set (queue k)" for k
  proof -
    obtain g' where "game_loop g queue 0 = Some (Inr g')"
      using game_loop_quits [of g 0 k queue] g(3) q by auto
    then show ?thesis
      by (simp add: m)
  qed
  have forever: "main be queue = None" if nq: "\<forall>k. SDL_QUIT \<notin> set (queue k)"
  proof (cases "game_loop g queue 0")
    case None
    then show ?thesis
      by (simp add: m)
  next
    case (Some r)
    then have "\<exists>k \<ge> 0. SDL_QUIT \<in> set (queue k)"
      using game_loop_result [OF Some g(3)] g(2) by simp
    then show ?thesis
      using nq by simp
  qed
  show ?thesis
    using False quit forever by (auto simp add: setup_fails_def)
qed

text \<open>
  A backend that fails, one that works with a close event in the third pass, and
  one that works and is never closed.
\<close>

theorem main_exit_code_witness:
  "main failing_backend quit_in_third = Some (Inr (- 1)) \<and>
   main working_backend quit_in_third = Some (Inr 0) \<and>
   main working_backend never_quit = None"
proof -
  have f: "sdl_init failing_backend < 0"
    by (simp add: failing_backend_def)
  have w: "\<not> (sdl_init working_backend < 0 \<or> create_window working_backend = None \<or>
      create_renderer working_backend = None)"
    by (simp add: working_backend_def)
  have q: "\<exists>m. SDL_QUIT \<in> set (quit_in_third m)"
    by (rule exI [of _ 2]) (simp add: quit_in_third_def)
  have n: "\<forall>m. SDL_QUIT \<notin> set (never_quit m)"
    by (simp add: never_quit_def)
  show ?thesis
    using main_exit_code [of failing_backend quit_in_third]
      main_exit_code [of working_backend quit_in_third]
      main_exit_code [of working_backend never_quit] f w q n
    by blast
qed

subsection \<open>C10: the target before the first button press\<close>

text \<open>
  C10.  A new \<open>Game\<close> has the target (400, 300).  \<open>init\<close> keeps it, and after
  any number of passes of the loop whose queues hold no button press the target is
  still (400, 300).  \<open>handleEvents\<close> changes the target only if its queue holds
  a button press, and \<open>Game_update\<close> never changes it.
\<close>

theorem target_starts_at_centre:
  "target Game = \<lparr>point_x = 400, point_y = 300\<rparr> \<and>
   (init be Game = Inr (ok, g) \<and>
    (\<forall>evs \<in> set evss. \<forall>px py. SDL_MOUSEBUTTONDOWN px py \<notin> set evs) \<longrightarrow>
      target g = \<lparr>point_x = 400, point_y = 300\<rparr> \<and>
      (\<exists>g'. frames g evss = Inr g' \<and> target g' = \<lparr>point_x = 400, point_y = 300\<rparr>)) \<and>
   (target (handleEvents g0 evs0) \<noteq> target g0 \<longrightarrow>
      (\<exists>px py. SDL_MOUSEBUTTONDOWN px py \<in> set evs0)) \<and>
   (Game_update g0 = Inr g1 \<longrightarrow> target g1 = target g0)"
proof -
  have t0: "target Game = \<lparr>point_x = 400, point_y = 300\<rparr>"
    by (simp add: Game_def)
  have run: "target g = \<lparr>point_x = 400, point_y = 300\<rparr> \<and>
      (\<exists>g'. frames g evss = Inr g' \<and> target g' = \<lparr>point_x = 400, point_y = 300\<rparr>)"
    if i: "init be Game = Inr (ok, g)"
      and np: "\<forall>evs \<in> set evss. \<forall>px py. SDL_MOUSEBUTTONDOWN px py \<notin> set evs"
  proof -
    have g: "target g = target Game" "units_reachable g"
      using init_keeps [OF i units_reachable_Game] by simp_all
    have "\<forall>evs \<in> set evss. presses evs = []"
      using np by (simp add: presses_empty_iff)
    then show ?thesis
      using frames_no_press [OF g(2), of evss] g(1) t0 by simp
  qed
  have he: "\<exists>px py. SDL_MOUSEBUTTONDOWN px py \<in> set evs0"
    if ch: "target (handleEvents g0 evs0) \<noteq> target g0"
  proof -
    have "presses evs0 \<noteq> []"
      using ch by (auto simp add: handleEvents_target)
    then show ?thesis
      by (simp add: presses_empty_iff)
  qed
  have gu: "target g1 = target g0" if "Game_update g0 = Inr g1"
    using Game_update_keeps [OF that] by simp
  show ?thesis
    using t0 run he gu by blast
qed

text \<open>
  Three passes without a press after \<open>init\<close>, and one queue with a press.
\<close>

theorem target_starts_at_centre_witness:
  "init working_backend Game = Inr (True, started_game) \<and>
   target started_game = \<lparr>point_x = 400, point_y = 300\<rparr> \<and>
   (\<exists>g'. frames started_game [Nil, [SDL_OTHEREVENT], Nil] = Inr g' \<and>
      target g' = \<lparr>point_x = 400, point_y = 300\<rparr>) \<and>
   target (handleEvents started_game [SDL_MOUSEBUTTONDOWN 10 20]) \<noteq> target started_game \<and>
   (\<exists>px py. SDL_MOUSEBUTTONDOWN px py \<in> set [SDL_MOUSEBUTTONDOWN 10 20]) \<and>
   (\<exists>g1. Game_update started_game = Inr g1 \<and> target g1 = target started_game)"
proof -
  have np: "\<forall>evs \<in> set [Nil, [SDL_OTHEREVENT], Nil]. \<forall>px py. SDL_MOUSEBUTTONDOWN px py \<notin> set evs"
    by simp
  have ch: "target (handleEvents started_game [SDL_MOUSEBUTTONDOWN 10 20]) \<noteq> target started_game"
    by (simp add: started_game_def centre_def)
  obtain g1 where g1: "Game_update started_game = Inr g1"
    using Game_update_total [OF reachable_started] by blast
  note th = target_starts_at_centre [of working_backend True started_game
      "[Nil, [SDL_OTHEREVENT], Nil]" started_game "[SDL_MOUSEBUTTONDOWN 10 20]" g1]
  have a: "target started_game = \<lparr>point_x = 400, point_y = 300\<rparr> \<and>
      (\<exists>g'. frames started_game [Nil, [SDL_OTHEREVENT], Nil] = Inr g' \<and>
        target g' = \<lparr>point_x = 400, point_y = 300\<rparr>)"
    using th init_working np by blast
  have b: "\<exists>px py. SDL_MOUSEBUTTONDOWN px py \<in> set [SDL_MOUSEBUTTONDOWN 10 20]"
    using th ch by blast
  have c: "target g1 = target started_game"
    using th g1 by blast
  show ?thesis
    using init_working a b ch c g1 by blast
qed

end
